theory Spec2Isabelle
  imports Main
begin

section \<open>The stream forwarder of internal/stdforward\<close>

text \<open>
  The package keeps two package-level forwarders, one for stdout and one for stderr.
  A forwarder holds the file it writes to first (\<open>out\<close>), a map from identifiers to
  writers, a mutex and a \<open>sync.Once\<close>. The model is sequential: every operation runs
  to completion on an explicit state of the process, so the mutex has no counterpart.
  What the operating system, the runtime and the consumers decide is given from
  outside: the result of \<open>os.Pipe\<close>, the order in which Go ranges over a map and the
  number of bytes a read of the pipe returns are parameters of the operation that meets
  them, and the results of writes come from an environment. The effects are recorded in
  the order they happen, so that what a consumer or a file has seen can be read off.
\<close>

subsection \<open>Data\<close>

type_synonym bytes = string

text \<open>An \<open>io.Writer\<close> value registered by a caller, known by its identity.\<close>

type_synonym wref = nat

text \<open>
  A \<open>*os.File\<close>: a stream the process started with, or one end of pipe number \<open>n\<close>
  as returned by \<open>os.Pipe\<close>.
\<close>

datatype os_File = Stream string | PipeRead nat | PipeWrite nat

text \<open>The result of \<open>os.Pipe()\<close>: an error, or the number of the new pipe.\<close>

type_synonym pipe_result = "string + nat"

text \<open>
  The zero value of a forwarder has a nil \<open>out\<close>, a nil map and a gate that has not
  fired; \<open>None\<close> stands for nil in both fields.
\<close>

record forwarder =
  out :: "os_File option"
  writers :: "(string \<rightharpoonup> wref) option"
  once :: bool

datatype fwd = StdoutForwarder | StderrForwarder

text \<open>
  The effects of the package, in the order they happen: the call of \<open>os.Pipe\<close> in the
  gate of a forwarder, the \<open>go\<close> statement that starts \<open>io.Copy\<close>, the assignment
  to \<open>os.Stdout\<close>, the bytes a file accepted, the call by a forwarder of the \<open>Write\<close>
  method of the writer registered under an identifier, and a warning of the logger.
\<close>

datatype event =
    PipeCall fwd pipe_result
  | GoCopy fwd os_File
  | SetStdout fwd os_File
  | FileWrite os_File bytes
  | ConsumerWrite fwd string wref bytes
  | Warning string

record world =
  os_Stdout :: os_File
  os_Stderr :: os_File
  stdoutForwarder :: forwarder
  stderrForwarder :: forwarder
  goroutines :: "(fwd \<times> os_File) list"
  pipebuf :: "nat \<Rightarrow> bytes"
  events :: "event list"

definition zero_forwarder :: forwarder where
  "zero_forwarder = \<lparr>out = None, writers = None, once = False\<rparr>"

text \<open>The process at start: both forwarders are zero values and no pipe holds bytes.\<close>

definition init_world :: world where
  "init_world =
     \<lparr>os_Stdout = Stream ''stdout'', os_Stderr = Stream ''stderr'',
      stdoutForwarder = zero_forwarder, stderrForwarder = zero_forwarder,
      goroutines = [], pipebuf = (\<lambda>_. []), events = []\<rparr>"

fun fw :: "fwd \<Rightarrow> world \<Rightarrow> forwarder" where
  "fw StdoutForwarder s = stdoutForwarder s"
| "fw StderrForwarder s = stderrForwarder s"

fun fw_update :: "fwd \<Rightarrow> (forwarder \<Rightarrow> forwarder) \<Rightarrow> world \<Rightarrow> world" where
  "fw_update StdoutForwarder g s = s\<lparr>stdoutForwarder := g (stdoutForwarder s)\<rparr>"
| "fw_update StderrForwarder g s = s\<lparr>stderrForwarder := g (stderrForwarder s)\<rparr>"

fun other :: "fwd \<Rightarrow> fwd" where
  "other StdoutForwarder = StderrForwarder"
| "other StderrForwarder = StdoutForwarder"

subsection \<open>The environment of a write\<close>

text \<open>
  \<open>fileRes\<close> is what \<open>(*os.File).Write\<close> returns for a file and a byte slice, given
  what has happened so far: the count of bytes written and an error or nil.
  \<open>writerRes\<close> is the error or nil that the \<open>Write\<close> method of a registered writer
  returns (the forwarder discards its count).
\<close>

record env =
  fileRes :: "event list \<Rightarrow> os_File \<Rightarrow> bytes \<Rightarrow> nat \<times> string option"
  writerRes :: "event list \<Rightarrow> wref \<Rightarrow> bytes \<Rightarrow> string option"

subsection \<open>Registration\<close>

datatype result = ReturnNil | ReturnErr string | Panic string

text \<open>
  The function passed to \<open>dest.once.Do\<close> in \<open>addWriter\<close>. It sets \<open>out\<close> and the
  map before it asks for the pipe and returns early when there is none; otherwise it
  starts the copy loop and assigns the write end to \<open>os.Stdout\<close>, whichever forwarder
  \<open>dest\<close> is.
\<close>

definition once_body :: "fwd \<Rightarrow> os_File \<Rightarrow> pipe_result \<Rightarrow> world \<Rightarrow> string option \<times> world" where
  "once_body dest std pr s =
     (let s1 = fw_update dest (\<lambda>f. f\<lparr>out := Some std, writers := Some Map.empty\<rparr>) s;
          s2 = s1\<lparr>events := events s1 @ [PipeCall dest pr]\<rparr>
      in case pr of
           Inl err \<Rightarrow> (Some (''Can't redirect output: '' @ err), s2)
         | Inr n \<Rightarrow>
             (None,
              s2\<lparr>goroutines := goroutines s2 @ [(dest, PipeRead n)],
                 os_Stdout := PipeWrite n,
                 events := events s2 @ [GoCopy dest (PipeRead n), SetStdout dest (PipeWrite n)]\<rparr>))"

text \<open>\<open>sync.Once.Do\<close>: the function runs when the gate has not fired, and then the gate has fired.\<close>

definition once_Do :: "fwd \<Rightarrow> os_File \<Rightarrow> pipe_result \<Rightarrow> world \<Rightarrow> string option \<times> world" where
  "once_Do dest std pr s =
     (if once (fw dest s) then (None, s)
      else (let (onceErr, s1) = once_body dest std pr s
            in (onceErr, fw_update dest (\<lambda>f. f\<lparr>once := True\<rparr>) s1)))"

text \<open>
  \<open>addWriter\<close>. The pipe result is consulted only when the gate runs the function.
  An assignment into a nil map panics in Go.
\<close>

definition addWriter :: "fwd \<Rightarrow> os_File \<Rightarrow> string \<Rightarrow> wref \<Rightarrow> pipe_result \<Rightarrow> world \<Rightarrow> result \<times> world" where
  "addWriter dest std id' w pr s =
     (let (onceErr, s1) = once_Do dest std pr s
      in case onceErr of
           Some e \<Rightarrow> (ReturnErr e, s1)
         | None \<Rightarrow>
             (case writers (fw dest s1) of
                None \<Rightarrow> (Panic ''assignment to entry in nil map'', s1)
              | Some m \<Rightarrow>
                  (ReturnNil, fw_update dest (\<lambda>f. f\<lparr>writers := Some (m(id' \<mapsto> w))\<rparr>) s1)))"

definition AddStdoutWriter :: "string \<Rightarrow> wref \<Rightarrow> pipe_result \<Rightarrow> world \<Rightarrow> result \<times> world" where
  "AddStdoutWriter id' w pr s = addWriter StdoutForwarder (os_Stdout s) id' w pr s"

definition AddStderrWriter :: "string \<Rightarrow> wref \<Rightarrow> pipe_result \<Rightarrow> world \<Rightarrow> result \<times> world" where
  "AddStderrWriter id' w pr s = addWriter StderrForwarder (os_Stderr s) id' w pr s"

text \<open>\<open>delete(m, id)\<close> leaves a nil map nil and a map without the key as it is.\<close>

definition delete_writer :: "string \<Rightarrow> forwarder \<Rightarrow> forwarder" where
  "delete_writer id' f =
     (case writers f of
        None \<Rightarrow> f
      | Some m \<Rightarrow> f\<lparr>writers := Some (m(id' := None))\<rparr>)"

definition RemoveStdoutWriter :: "string \<Rightarrow> world \<Rightarrow> world" where
  "RemoveStdoutWriter id' s = s\<lparr>stdoutForwarder := delete_writer id' (stdoutForwarder s)\<rparr>"

definition RemoveStderrWriter :: "string \<Rightarrow> world \<Rightarrow> world" where
  "RemoveStderrWriter id' s = s\<lparr>stderrForwarder := delete_writer id' (stderrForwarder s)\<rparr>"

subsection \<open>The write path\<close>

text \<open>A warning of the logger; \<open>err\<close> is an error or nil.\<close>

definition warn_if :: "string \<Rightarrow> string option \<Rightarrow> event list \<Rightarrow> event list" where
  "warn_if msg err es = (case err of None \<Rightarrow> es | Some x \<Rightarrow> es @ [Warning (msg @ x)])"

text \<open>
  \<open>(*os.File).Write\<close>. On a nil file it returns 0 and \<open>os.ErrInvalid\<close>. Otherwise the
  file accepts the first \<open>n\<close> bytes, \<open>n\<close> being the count the call reports; bytes
  accepted by the write end of a pipe wait in the buffer of that pipe.
\<close>

definition file_Write :: "env \<Rightarrow> os_File option \<Rightarrow> bytes \<Rightarrow> world \<Rightarrow> (nat \<times> string option) \<times> world" where
  "file_Write e fo p s =
     (case fo of
        None \<Rightarrow> ((0, Some ''invalid argument''), s)
      | Some h \<Rightarrow>
          (let (n, err) = fileRes e (events s) h p;
               s1 = s\<lparr>events := events s @ [FileWrite h (take n p)]\<rparr>
           in ((n, err),
               (case h of
                  PipeWrite k \<Rightarrow> s1\<lparr>pipebuf := (pipebuf s1)(k := pipebuf s1 k @ take n p)\<rparr>
                | _ \<Rightarrow> s1))))"

text \<open>
  The loop \<open>for _, w := range f.writers\<close> of \<open>Write\<close>, over the keys in the order
  the runtime picked: a failing writer is logged and the loop goes on.
\<close>

fun forward :: "env \<Rightarrow> fwd \<Rightarrow> (string \<rightharpoonup> wref) \<Rightarrow> bytes \<Rightarrow> string list \<Rightarrow> event list \<Rightarrow> event list" where
  "forward e d m p [] es = es"
| "forward e d m p (k # ks) es =
     (case m k of
        None \<Rightarrow> forward e d m p ks es
      | Some w \<Rightarrow>
          forward e d m p ks
            (warn_if ''Failed to forward logs: '' (writerRes e es w p)
               (es @ [ConsumerWrite d k w p])))"

text \<open>
  \<open>(*forwarder).Write\<close>: the regular output first, then every registered writer;
  the count of the regular output and a nil error are returned. A range over a nil map
  has no iteration.
\<close>

definition Write :: "env \<Rightarrow> fwd \<Rightarrow> string list \<Rightarrow> bytes \<Rightarrow> world \<Rightarrow> (nat \<times> string option) \<times> world" where
  "Write e d ord p s =
     (let f = fw d s;
          ((n, err), s1) = file_Write e (out f) p s;
          es2 = warn_if ''Failed to write to regular output: '' err (events s1);
          es3 = (case writers f of
                   None \<Rightarrow> es2
                 | Some m \<Rightarrow> forward e d m p ord es2)
      in ((n, None), s1\<lparr>events := es3\<rparr>))"

text \<open>An order in which Go may range over a map: every key once.\<close>

definition range_order :: "string list \<Rightarrow> (string \<rightharpoonup> wref) \<Rightarrow> bool" where
  "range_order ord m = (distinct ord \<and> set ord = dom m)"

text \<open>Several calls of \<open>Write\<close> in a row, each with its range order.\<close>

fun Writes :: "env \<Rightarrow> fwd \<Rightarrow> (string list \<times> bytes) list \<Rightarrow> world \<Rightarrow> world" where
  "Writes e d [] s = s"
| "Writes e d (op # ops) s = Writes e d ops (snd (Write e d (fst op) (snd op) s))"

subsection \<open>What a consumer observes\<close>

text \<open>The calls a forwarder made for the entry registered under an identifier.\<close>

fun delivered :: "fwd \<Rightarrow> string \<Rightarrow> event list \<Rightarrow> (wref \<times> bytes) list" where
  "delivered d k [] = []"
| "delivered d k (ConsumerWrite d' k' w p # es) =
     (if d' = d \<and> k' = k then (w, p) # delivered d k es else delivered d k es)"
| "delivered d k (_ # es) = delivered d k es"

text \<open>The byte slices a forwarder passed to a writer, under any identifier.\<close>

fun received :: "fwd \<Rightarrow> wref \<Rightarrow> event list \<Rightarrow> bytes list" where
  "received d w [] = []"
| "received d w (ConsumerWrite d' k w' p # es) =
     (if d' = d \<and> w' = w then p # received d w es else received d w es)"
| "received d w (_ # es) = received d w es"

text \<open>Every call a forwarder made to a registered writer.\<close>

fun broadcasts :: "fwd \<Rightarrow> event list \<Rightarrow> (string \<times> wref \<times> bytes) list" where
  "broadcasts d [] = []"
| "broadcasts d (ConsumerWrite d' k w p # es) =
     (if d' = d then (k, w, p) # broadcasts d es else broadcasts d es)"
| "broadcasts d (_ # es) = broadcasts d es"

text \<open>The bytes a file accepted, write by write.\<close>

fun written :: "os_File \<Rightarrow> event list \<Rightarrow> bytes list" where
  "written h [] = []"
| "written h (FileWrite h' p # es) = (if h' = h then p # written h es else written h es)"
| "written h (_ # es) = written h es"

subsection \<open>The copy loop and the rest of the process\<close>

text \<open>
  The error of \<open>io.Copy\<close> when \<open>Write\<close> reports \<open>nw\<close> bytes for \<open>nr\<close> bytes read
  and a nil error.
\<close>

definition copy_error :: "nat \<Rightarrow> nat \<Rightarrow> string" where
  "copy_error nw nr = (if nr < nw then ''invalid write result'' else ''short write'')"

text \<open>
  One turn of the loop of \<open>io.Copy(dest, rOut)\<close> run by goroutine number \<open>i\<close>: a read
  that returns the first \<open>k\<close> bytes waiting in the pipe, then \<open>dest.Write\<close> on them.
  With nothing to read the goroutine stays blocked. \<open>io.Copy\<close> returns, and the
  goroutine logs and ends, when \<open>Write\<close> reports a count other than the count read.
\<close>

definition copy_step :: "env \<Rightarrow> nat \<Rightarrow> nat \<Rightarrow> string list \<Rightarrow> world \<Rightarrow> world" where
  "copy_step e i k ord s =
     (if i < length (goroutines s) then
        (case goroutines s ! i of
           (dest, PipeRead n) \<Rightarrow>
             (let chunk = take k (pipebuf s n)
              in if chunk = [] then s
                 else
                   (let s1 = s\<lparr>pipebuf := (pipebuf s)(n := drop k (pipebuf s n))\<rparr>;
                        (res, s2) = Write e dest ord chunk s1
                    in if fst res = length chunk then s2
                       else s2\<lparr>goroutines := take i (goroutines s2) @ drop (Suc i) (goroutines s2),
                               events := events s2 @
                                 [Warning (''Forwarding some messages failed: '' @
                                    copy_error (fst res) (length chunk))]\<rparr>))
         | _ \<Rightarrow> s)
      else s)"

text \<open>
  What can happen in the process: the four exported functions, a write by any code to
  the current value of \<open>os.Stdout\<close> or \<open>os.Stderr\<close> or to a file it holds, and a turn
  of a copy loop. A step keeps the state a call leaves and drops what it returns; the
  panic of \<open>addWriter\<close> is shown below to be out of reach from the start of the process.
\<close>

datatype action =
    CallAddStdoutWriter string wref pipe_result
  | CallAddStderrWriter string wref pipe_result
  | CallRemoveStdoutWriter string
  | CallRemoveStderrWriter string
  | WriteStdout bytes
  | WriteStderr bytes
  | WriteFile os_File bytes
  | CopyStep nat nat "string list"

fun step :: "env \<Rightarrow> action \<Rightarrow> world \<Rightarrow> world" where
  "step e (CallAddStdoutWriter k w pr) s = snd (AddStdoutWriter k w pr s)"
| "step e (CallAddStderrWriter k w pr) s = snd (AddStderrWriter k w pr s)"
| "step e (CallRemoveStdoutWriter k) s = RemoveStdoutWriter k s"
| "step e (CallRemoveStderrWriter k) s = RemoveStderrWriter k s"
| "step e (WriteStdout p) s = snd (file_Write e (Some (os_Stdout s)) p s)"
| "step e (WriteStderr p) s = snd (file_Write e (Some (os_Stderr s)) p s)"
| "step e (WriteFile h p) s = snd (file_Write e (Some h) p s)"
| "step e (CopyStep i k ord) s = copy_step e i k ord s"

fun run :: "env \<Rightarrow> action list \<Rightarrow> world \<Rightarrow> world" where
  "run e [] s = s"
| "run e (a # as) s = run e as (step e a s)"

text \<open>The exported functions by forwarder.\<close>

fun AddWriter :: "fwd \<Rightarrow> string \<Rightarrow> wref \<Rightarrow> pipe_result \<Rightarrow> world \<Rightarrow> result \<times> world" where
  "AddWriter StdoutForwarder = AddStdoutWriter"
| "AddWriter StderrForwarder = AddStderrWriter"

fun RemoveWriter :: "fwd \<Rightarrow> string \<Rightarrow> world \<Rightarrow> world" where
  "RemoveWriter StdoutForwarder = RemoveStdoutWriter"
| "RemoveWriter StderrForwarder = RemoveStderrWriter"

text \<open>
  How often the gate of a forwarder called \<open>os.Pipe\<close>, started a copy loop and
  assigned to the global handle.
\<close>

fun pipe_calls :: "fwd \<Rightarrow> event list \<Rightarrow> nat" where
  "pipe_calls d [] = 0"
| "pipe_calls d (PipeCall d' r # es) = (if d' = d then Suc (pipe_calls d es) else pipe_calls d es)"
| "pipe_calls d (_ # es) = pipe_calls d es"

fun loops_started :: "fwd \<Rightarrow> event list \<Rightarrow> nat" where
  "loops_started d [] = 0"
| "loops_started d (GoCopy d' r # es) = (if d' = d then Suc (loops_started d es) else loops_started d es)"
| "loops_started d (_ # es) = loops_started d es"

fun swaps :: "fwd \<Rightarrow> event list \<Rightarrow> nat" where
  "swaps d [] = 0"
| "swaps d (SetStdout d' h # es) = (if d' = d then Suc (swaps d es) else swaps d es)"
| "swaps d (_ # es) = swaps d es"

text \<open>The copy loops that forward to a forwarder.\<close>

definition loops_of :: "fwd \<Rightarrow> world \<Rightarrow> (fwd \<times> os_File) list" where
  "loops_of d s = filter (\<lambda>g. fst g = d) (goroutines s)"

text \<open>An environment in which every write succeeds in full.\<close>

definition ok_env :: env where
  "ok_env = \<lparr>fileRes = (\<lambda>es h p. (length p, None)), writerRes = (\<lambda>es w p. None)\<rparr>"

text \<open>An environment in which writer \<open>b\<close> always fails and every other write succeeds.\<close>

definition bad_writer_env :: "wref \<Rightarrow> env" where
  "bad_writer_env b =
     \<lparr>fileRes = (\<lambda>es h p. (length p, None)),
      writerRes = (\<lambda>es w p. if w = b then Some ''closed'' else None)\<rparr>"

text \<open>An environment in which every write to a file fails and the writers accept.\<close>

definition bad_out_env :: env where
  "bad_out_env = \<lparr>fileRes = (\<lambda>es h p. (0, Some ''EIO'')), writerRes = (\<lambda>es w p. None)\<rparr>"

text \<open>The process after two registrations on stdout, the first of which got pipe 0.\<close>

definition two_clients :: world where
  "two_clients =
     snd (AddStdoutWriter ''client-2'' 2 (Inr 0)
       (snd (AddStdoutWriter ''client-1'' 1 (Inr 0) init_world)))"

text \<open>The process after one registration on stdout that got pipe 0.\<close>

definition one_client :: world where
  "one_client = snd (AddStdoutWriter ''client-1'' 1 (Inr 0) init_world)"

text \<open>The process after one registration on stderr that got pipe 0.\<close>

definition stderr_client :: world where
  "stderr_client = snd (AddStderrWriter ''client-1'' 1 (Inr 0) init_world)"

text \<open>The process after a first registration on stdout for which \<open>os.Pipe\<close> failed.\<close>

definition failed_first :: world where
  "failed_first = snd (AddStdoutWriter ''client-1'' 1 (Inl ''too many open files'') init_world)"

text \<open>
  What holds of a forwarder in every state the process reaches. Once the gate has fired
  the map is not nil and \<open>os.Pipe\<close> was called once; before, the forwarder is the zero
  value, nothing was done on its behalf and it has called no writer. A forwarder has
  no more running copy loops than were started, and as many assignments to the global
  handle as loops started.
\<close>

definition gate_inv :: "fwd \<Rightarrow> world \<Rightarrow> bool" where
  "gate_inv d s =
     (length (loops_of d s) \<le> loops_started d (events s)
      \<and> swaps d (events s) = loops_started d (events s)
      \<and> loops_started d (events s) \<le> pipe_calls d (events s)
      \<and> (if once (fw d s)
          then writers (fw d s) \<noteq> None \<and> pipe_calls d (events s) = 1
          else fw d s = zero_forwarder \<and> pipe_calls d (events s) = 0
               \<and> broadcasts d (events s) = []))"

text \<open>A forwarder that has no copy loop and has called no writer.\<close>

definition quiet :: "fwd \<Rightarrow> world \<Rightarrow> bool" where
  "quiet d s = (once (fw d s) \<and> writers (fw d s) \<noteq> None \<and> loops_of d s = []
                \<and> broadcasts d (events s) = [])"

section \<open>Properties\<close>

subsection \<open>Projections of the event list\<close>

lemma delivered_append:
  "delivered d k (xs @ ys) = delivered d k xs @ delivered d k ys"
  by (induction d k xs rule: delivered.induct) simp_all

lemma received_append:
  "received d w (xs @ ys) = received d w xs @ received d w ys"
  by (induction d w xs rule: received.induct) simp_all

lemma broadcasts_append:
  "broadcasts d (xs @ ys) = broadcasts d xs @ broadcasts d ys"
  by (induction d xs rule: broadcasts.induct) simp_all

lemma written_append:
  "written h (xs @ ys) = written h xs @ written h ys"
  by (induction h xs rule: written.induct) simp_all

lemma pipe_calls_append:
  "pipe_calls d (xs @ ys) = pipe_calls d xs + pipe_calls d ys"
  by (induction d xs rule: pipe_calls.induct) simp_all

lemma loops_started_append:
  "loops_started d (xs @ ys) = loops_started d xs + loops_started d ys"
  by (induction d xs rule: loops_started.induct) simp_all

lemma swaps_append:
  "swaps d (xs @ ys) = swaps d xs + swaps d ys"
  by (induction d xs rule: swaps.induct) simp_all

lemmas proj_append =
  delivered_append received_append broadcasts_append written_append
  pipe_calls_append loops_started_append swaps_append

lemma warn_if_proj [simp]:
  "delivered d k (warn_if msg err es) = delivered d k es"
  "received d w (warn_if msg err es) = received d w es"
  "broadcasts d (warn_if msg err es) = broadcasts d es"
  "written h (warn_if msg err es) = written h es"
  "pipe_calls d (warn_if msg err es) = pipe_calls d es"
  "loops_started d (warn_if msg err es) = loops_started d es"
  "swaps d (warn_if msg err es) = swaps d es"
  by (simp_all add: warn_if_def proj_append split: option.splits)

lemma forward_delivered:
  "distinct ks \<Longrightarrow>
   delivered d k (forward e d m p ks es) =
     delivered d k es @
       (if k \<in> set ks then (case m k of None \<Rightarrow> [] | Some w \<Rightarrow> [(w, p)]) else [])"
proof (induction ks arbitrary: es)
  case Nil
  show ?case by simp
next
  case (Cons j ks)
  then show ?case
    by (cases "m j") (auto simp: proj_append)
qed

lemma forward_delivered_other:
  "d' \<noteq> d \<Longrightarrow> delivered d' k (forward e d m p ks es) = delivered d' k es"
  by (induction ks arbitrary: es) (auto simp: proj_append split: option.splits)

lemma forward_broadcasts_other:
  "d' \<noteq> d \<Longrightarrow> broadcasts d' (forward e d m p ks es) = broadcasts d' es"
  by (induction ks arbitrary: es) (auto simp: proj_append split: option.splits)

lemma forward_received:
  "received d w (forward e d m p ks es) =
     received d w es @ replicate (length (filter (\<lambda>k. m k = Some w) ks)) p"
proof (induction ks arbitrary: es)
  case Nil
  show ?case by simp
next
  case (Cons j ks)
  then show ?case
    by (cases "m j") (auto simp: proj_append replicate_app_Cons_same)
qed

lemma forward_written [simp]:
  "written h (forward e d m p ks es) = written h es"
  by (induction ks arbitrary: es) (auto simp: proj_append split: option.splits)

lemma forward_counts [simp]:
  "pipe_calls d' (forward e d m p ks es) = pipe_calls d' es"
  "loops_started d' (forward e d m p ks es) = loops_started d' es"
  "swaps d' (forward e d m p ks es) = swaps d' es"
  by (induction ks arbitrary: es; auto simp: proj_append split: option.splits)+

lemma forward_prefix:
  "\<exists>new. forward e d m p ks es = es @ new"
proof (induction ks arbitrary: es)
  case Nil
  show ?case by simp
next
  case (Cons j ks)
  show ?case
  proof (cases "m j")
    case None
    then show ?thesis using Cons.IH [of es] by simp
  next
    case (Some w)
    obtain new where
      "forward e d m p ks (warn_if ''Failed to forward logs: '' (writerRes e es w p) (es @ [ConsumerWrite d j w p]))
         = warn_if ''Failed to forward logs: '' (writerRes e es w p) (es @ [ConsumerWrite d j w p]) @ new"
      using Cons.IH by blast
    then show ?thesis using Some
      by (cases "writerRes e es w p") (simp_all add: warn_if_def)
  qed
qed

subsection \<open>The write path\<close>

lemma file_Write_frame [simp]:
  "stdoutForwarder (snd (file_Write e fo p s)) = stdoutForwarder s"
  "stderrForwarder (snd (file_Write e fo p s)) = stderrForwarder s"
  "os_Stdout (snd (file_Write e fo p s)) = os_Stdout s"
  "os_Stderr (snd (file_Write e fo p s)) = os_Stderr s"
  "goroutines (snd (file_Write e fo p s)) = goroutines s"
  by (simp_all add: file_Write_def Let_def split: option.splits prod.splits os_File.splits)

lemma file_Write_fw [simp]: "fw d (snd (file_Write e fo p s)) = fw d s"
  by (cases d) simp_all

lemma file_Write_events:
  "events (snd (file_Write e fo p s)) =
     events s @ (case fo of None \<Rightarrow> [] | Some h \<Rightarrow> [FileWrite h (take (fst (fst (file_Write e fo p s))) p)])"
  by (simp add: file_Write_def Let_def split: option.splits prod.splits os_File.splits)

lemma file_Write_fst:
  "fst (file_Write e fo p s) =
     (case fo of None \<Rightarrow> (0, Some ''invalid argument'') | Some h \<Rightarrow> fileRes e (events s) h p)"
  by (simp add: file_Write_def Let_def split: option.splits prod.splits)

lemma Write_snd:
  "snd (Write e d ord p s) =
     (snd (file_Write e (out (fw d s)) p s))
       \<lparr>events :=
          (case writers (fw d s) of
             None \<Rightarrow> warn_if ''Failed to write to regular output: '' (snd (fst (file_Write e (out (fw d s)) p s)))
                 (events (snd (file_Write e (out (fw d s)) p s)))
           | Some m \<Rightarrow> forward e d m p ord
                 (warn_if ''Failed to write to regular output: '' (snd (fst (file_Write e (out (fw d s)) p s)))
                 (events (snd (file_Write e (out (fw d s)) p s)))))\<rparr>"
  by (simp add: Write_def Let_def case_prod_beta)

lemma Write_frame [simp]:
  "stdoutForwarder (snd (Write e d ord p s)) = stdoutForwarder s"
  "stderrForwarder (snd (Write e d ord p s)) = stderrForwarder s"
  "os_Stdout (snd (Write e d ord p s)) = os_Stdout s"
  "os_Stderr (snd (Write e d ord p s)) = os_Stderr s"
  "goroutines (snd (Write e d ord p s)) = goroutines s"
  by (simp_all add: Write_snd)

lemma Write_fw [simp]: "fw d' (snd (Write e d ord p s)) = fw d' s"
  by (cases d') simp_all

lemma Write_fst:
  "fst (Write e d ord p s) = (fst (fst (file_Write e (out (fw d s)) p s)), None)"
  by (simp add: Write_def Let_def case_prod_beta)

lemma Write_events:
  "events (snd (Write e d ord p s)) =
     (case writers (fw d s) of
        None \<Rightarrow> warn_if ''Failed to write to regular output: '' (snd (fst (file_Write e (out (fw d s)) p s)))
                 (events (snd (file_Write e (out (fw d s)) p s)))
      | Some m \<Rightarrow> forward e d m p ord
                 (warn_if ''Failed to write to regular output: '' (snd (fst (file_Write e (out (fw d s)) p s)))
                 (events (snd (file_Write e (out (fw d s)) p s)))))"
  by (simp add: Write_snd)

lemma file_Write_proj [simp]:
  "delivered d k (events (snd (file_Write e fo p s))) = delivered d k (events s)"
  "received d w (events (snd (file_Write e fo p s))) = received d w (events s)"
  "broadcasts d (events (snd (file_Write e fo p s))) = broadcasts d (events s)"
  "pipe_calls d (events (snd (file_Write e fo p s))) = pipe_calls d (events s)"
  "loops_started d (events (snd (file_Write e fo p s))) = loops_started d (events s)"
  "swaps d (events (snd (file_Write e fo p s))) = swaps d (events s)"
  by (subst file_Write_events, simp add: proj_append split: option.splits)+

lemma Write_delivered:
  assumes "writers (fw d s) = Some m" and "range_order ord m"
  shows "delivered d k (events (snd (Write e d ord p s))) =
           delivered d k (events s) @ (case m k of None \<Rightarrow> [] | Some w \<Rightarrow> [(w, p)])"
proof -
  have "distinct ord" and mem: "k \<in> set ord \<longleftrightarrow> m k \<noteq> None"
    using assms(2) by (auto simp: range_order_def)
  then show ?thesis
    using assms(1) by (auto simp: Write_events forward_delivered split: option.splits)
qed

lemma Write_written:
  "written h (events (snd (Write e d ord p s))) =
     written h (events s) @
       (if out (fw d s) = Some h then [take (fst (fst (Write e d ord p s))) p] else [])"
  by (simp add: Write_events Write_fst file_Write_events proj_append split: option.splits)

lemma Write_counts [simp]:
  "pipe_calls d' (events (snd (Write e d ord p s))) = pipe_calls d' (events s)"
  "loops_started d' (events (snd (Write e d ord p s))) = loops_started d' (events s)"
  "swaps d' (events (snd (Write e d ord p s))) = swaps d' (events s)"
  by (simp_all add: Write_events split: option.splits)

lemma Write_broadcasts_other:
  "d' \<noteq> d \<Longrightarrow> broadcasts d' (events (snd (Write e d ord p s))) = broadcasts d' (events s)"
  by (simp add: Write_events forward_broadcasts_other split: option.splits)

lemma Write_prefix:
  "\<exists>rest. events (snd (Write e d ord p s)) = events (snd (file_Write e (out (fw d s)) p s)) @ rest"
proof -
  let ?es1 = "events (snd (file_Write e (out (fw d s)) p s))"
  let ?es2 = "warn_if ''Failed to write to regular output: '' (snd (fst (file_Write e (out (fw d s)) p s))) ?es1"
  have a: "\<exists>r. ?es2 = ?es1 @ r" by (simp add: warn_if_def split: option.splits)
  show ?thesis
  proof (cases "writers (fw d s)")
    case None
    then show ?thesis using a by (simp add: Write_events)
  next
    case (Some m)
    obtain r where r: "?es2 = ?es1 @ r" using a by blast
    obtain new where "forward e d m p ord ?es2 = ?es2 @ new" using forward_prefix by blast
    then have "forward e d m p ord ?es2 = ?es1 @ (r @ new)" using r by simp
    then show ?thesis using Some by (simp add: Write_events)
  qed
qed

lemma forward_keeps: "x \<in> set es \<Longrightarrow> x \<in> set (forward e d m p ks es)"
  using forward_prefix [of e d m p ks es] by auto

lemma forward_warns:
  assumes "k \<in> set ks" and "m k = Some w" and "\<forall>es. writerRes e es w p = Some x"
  shows "Warning (''Failed to forward logs: '' @ x) \<in> set (forward e d m p ks es)"
  using assms(1)
proof (induction ks arbitrary: es)
  case Nil
  then show ?case by simp
next
  case (Cons j ks)
  show ?case
  proof (cases "j = k")
    case True
    then show ?thesis
      using assms(2,3) by (simp add: warn_if_def forward_keeps)
  next
    case False
    then have "k \<in> set ks" using Cons.prems by simp
    then show ?thesis
      using Cons.IH by (cases "m j") simp_all
  qed
qed

lemma Write_count:
  "fst (fst (Write e d ord p s)) =
     (case out (fw d s) of None \<Rightarrow> 0 | Some h \<Rightarrow> fst (fileRes e (events s) h p))"
  by (simp add: Write_fst file_Write_fst split: option.splits)

lemma Write_first_event:
  assumes "out (fw d s) = Some h"
  shows "\<exists>rest. events (snd (Write e d ord p s)) =
           events s @ [FileWrite h (take (fst (fileRes e (events s) h p)) p)] @ rest"
proof -
  obtain rest where
    "events (snd (Write e d ord p s)) = events (snd (file_Write e (out (fw d s)) p s)) @ rest"
    using Write_prefix by blast
  then show ?thesis
    using assms by (simp add: file_Write_events file_Write_fst)
qed

lemma Write_writerRes_irrelevant:
  "fst (Write (e\<lparr>writerRes := wr\<rparr>) d ord p s) = fst (Write e d ord p s)"
  by (simp add: Write_fst file_Write_fst split: option.splits)

lemma RemoveWriter_fw [simp]:
  "fw d (RemoveWriter d k s) = delete_writer k (fw d s)"
  "fw (other d) (RemoveWriter d k s) = fw (other d) s"
  "events (RemoveWriter d k s) = events s"
  by (cases d; simp add: RemoveStdoutWriter_def RemoveStderrWriter_def)+

lemma Writes_fw [simp]: "fw d' (Writes e d ops s) = fw d' s"
  by (induction ops arbitrary: s) simp_all

lemma Writes_delivered:
  assumes "writers (fw d s) = Some m" and "\<forall>op \<in> set ops. range_order (fst op) m"
  shows "delivered d k (events (Writes e d ops s)) =
           delivered d k (events s) @
             (case m k of None \<Rightarrow> [] | Some w \<Rightarrow> map (\<lambda>op. (w, snd op)) ops)"
  using assms
proof (induction ops arbitrary: s)
  case Nil
  then show ?case by (simp split: option.splits)
next
  case (Cons op ops)
  have "delivered d k (events (Writes e d ops (snd (Write e d (fst op) (snd op) s)))) =
          delivered d k (events (snd (Write e d (fst op) (snd op) s))) @
            (case m k of None \<Rightarrow> [] | Some w \<Rightarrow> map (\<lambda>op. (w, snd op)) ops)"
    using Cons.prems by (intro Cons.IH) simp_all
  moreover have "delivered d k (events (snd (Write e d (fst op) (snd op) s))) =
          delivered d k (events s) @ (case m k of None \<Rightarrow> [] | Some w \<Rightarrow> [(w, snd op)])"
    using Cons.prems by (intro Write_delivered) simp_all
  ultimately show ?case by (simp split: option.splits)
qed

subsection \<open>Concrete states\<close>

lemmas world_defs =
  init_world_def zero_forwarder_def AddStdoutWriter_def AddStderrWriter_def addWriter_def
  once_Do_def once_body_def RemoveStdoutWriter_def RemoveStderrWriter_def delete_writer_def
  Let_def

lemma two_clients_eq:
  "two_clients =
     \<lparr>os_Stdout = PipeWrite 0, os_Stderr = Stream ''stderr'',
      stdoutForwarder =
        \<lparr>out = Some (Stream ''stdout''),
         writers = Some [''client-1'' \<mapsto> 1, ''client-2'' \<mapsto> 2], once = True\<rparr>,
      stderrForwarder = zero_forwarder,
      goroutines = [(StdoutForwarder, PipeRead 0)], pipebuf = (\<lambda>_. []),
      events = [PipeCall StdoutForwarder (Inr 0), GoCopy StdoutForwarder (PipeRead 0),
                SetStdout StdoutForwarder (PipeWrite 0)]\<rparr>"
  by (simp add: two_clients_def world_defs)

subsection \<open>Registration\<close>

lemma fw_fw_update [simp]:
  "fw d (fw_update d g s) = g (fw d s)"
  "fw (other d) (fw_update d g s) = fw (other d) s"
  "fw d (fw_update (other d) g s) = fw d s"
  by (cases d; simp)+

lemma fw_update_fields [simp]:
  "os_Stdout (fw_update d g s) = os_Stdout s"
  "os_Stderr (fw_update d g s) = os_Stderr s"
  "goroutines (fw_update d g s) = goroutines s"
  "pipebuf (fw_update d g s) = pipebuf s"
  "events (fw_update d g s) = events s"
  by (cases d; simp)+

lemma fw_other_fields [simp]:
  "fw d (s\<lparr>os_Stdout := a\<rparr>) = fw d s"
  "fw d (s\<lparr>os_Stderr := b\<rparr>) = fw d s"
  "fw d (s\<lparr>goroutines := c\<rparr>) = fw d s"
  "fw d (s\<lparr>pipebuf := pb\<rparr>) = fw d s"
  "fw d (s\<lparr>events := ev\<rparr>) = fw d s"
  by (cases d; simp)+

lemma fw_update_compose [simp]:
  "fw_update d g (fw_update d h s) = fw_update d (g \<circ> h) s"
  by (cases d) simp_all

lemma fw_update_commute_fields [simp]:
  "fw_update d g (s\<lparr>os_Stdout := a\<rparr>) = (fw_update d g s)\<lparr>os_Stdout := a\<rparr>"
  "fw_update d g (s\<lparr>goroutines := c\<rparr>) = (fw_update d g s)\<lparr>goroutines := c\<rparr>"
  "fw_update d g (s\<lparr>events := ev\<rparr>) = (fw_update d g s)\<lparr>events := ev\<rparr>"
  by (cases d; simp)+

lemma fw_update_cong: "g (fw d s) = h (fw d s) \<Longrightarrow> fw_update d g s = fw_update d h s"
  by (cases d) simp_all

lemma fw_update_id: "g (fw d s) = fw d s \<Longrightarrow> fw_update d g s = s"
  by (cases d) simp_all

lemma addWriter_fired:
  assumes "once (fw d s)" and "writers (fw d s) = Some m"
  shows "addWriter d std k w pr s =
           (ReturnNil, fw_update d (\<lambda>f. f\<lparr>writers := Some (m(k \<mapsto> w))\<rparr>) s)"
  using assms by (simp add: addWriter_def once_Do_def)

lemma addWriter_first_ok:
  assumes "\<not> once (fw d s)"
  shows "addWriter d std k w (Inr n) s =
           (ReturnNil,
            (fw_update d (\<lambda>f. \<lparr>out = Some std, writers = Some [k \<mapsto> w], once = True\<rparr>) s)
              \<lparr>goroutines := goroutines s @ [(d, PipeRead n)],
               os_Stdout := PipeWrite n,
               events := events s @ [PipeCall d (Inr n), GoCopy d (PipeRead n), SetStdout d (PipeWrite n)]\<rparr>)"
  using assms
  by (cases d) (simp_all add: addWriter_def once_Do_def once_body_def Let_def)

lemma addWriter_first_fail:
  assumes "\<not> once (fw d s)"
  shows "addWriter d std k w (Inl err) s =
           (ReturnErr (''Can't redirect output: '' @ err),
            (fw_update d (\<lambda>f. \<lparr>out = Some std, writers = Some Map.empty, once = True\<rparr>) s)
              \<lparr>events := events s @ [PipeCall d (Inl err)]\<rparr>)"
  using assms
  by (cases d) (simp_all add: addWriter_def once_Do_def once_body_def Let_def)

lemma RemoveWriter_eq: "RemoveWriter d k s = fw_update d (delete_writer k) s"
  by (cases d) (simp_all add: RemoveStdoutWriter_def RemoveStderrWriter_def)

lemma Write_received:
  assumes "writers (fw d s) = Some m"
  shows "received d w (events (snd (Write e d ord p s))) =
           received d w (events s) @ replicate (length (filter (\<lambda>k. m k = Some w) ord)) p"
  using assms by (simp add: Write_events forward_received)

lemma one_client_eq:
  "one_client =
     \<lparr>os_Stdout = PipeWrite 0, os_Stderr = Stream ''stderr'',
      stdoutForwarder =
        \<lparr>out = Some (Stream ''stdout''), writers = Some [''client-1'' \<mapsto> 1], once = True\<rparr>,
      stderrForwarder = zero_forwarder,
      goroutines = [(StdoutForwarder, PipeRead 0)], pipebuf = (\<lambda>_. []),
      events = [PipeCall StdoutForwarder (Inr 0), GoCopy StdoutForwarder (PipeRead 0),
                SetStdout StdoutForwarder (PipeWrite 0)]\<rparr>"
  by (simp add: one_client_def world_defs)

lemma stderr_client_eq:
  "stderr_client =
     \<lparr>os_Stdout = PipeWrite 0, os_Stderr = Stream ''stderr'',
      stdoutForwarder = zero_forwarder,
      stderrForwarder =
        \<lparr>out = Some (Stream ''stderr''), writers = Some [''client-1'' \<mapsto> 1], once = True\<rparr>,
      goroutines = [(StderrForwarder, PipeRead 0)], pipebuf = (\<lambda>_. []),
      events = [PipeCall StderrForwarder (Inr 0), GoCopy StderrForwarder (PipeRead 0),
                SetStdout StderrForwarder (PipeWrite 0)]\<rparr>"
  by (simp add: stderr_client_def world_defs)

lemma failed_first_eq:
  "failed_first =
     \<lparr>os_Stdout = Stream ''stdout'', os_Stderr = Stream ''stderr'',
      stdoutForwarder =
        \<lparr>out = Some (Stream ''stdout''), writers = Some Map.empty, once = True\<rparr>,
      stderrForwarder = zero_forwarder,
      goroutines = [], pipebuf = (\<lambda>_. []),
      events = [PipeCall StdoutForwarder (Inl ''too many open files'')]\<rparr>"
  by (simp add: failed_first_def world_defs)

subsection \<open>What every reachable state satisfies\<close>

lemma run_append: "run e (as @ bs) s = run e bs (run e as s)"
  by (induction as arbitrary: s) simp_all

lemma fw_update_other [simp]: "d \<noteq> d' \<Longrightarrow> fw d (fw_update d' g s) = fw d s"
  by (cases d; cases d') simp_all

lemma loops_of_simps [simp]:
  "loops_of d (fw_update d' g s) = loops_of d s"
  "loops_of d (s\<lparr>events := ev\<rparr>) = loops_of d s"
  "loops_of d (s\<lparr>os_Stdout := a\<rparr>) = loops_of d s"
  "loops_of d (s\<lparr>pipebuf := pb\<rparr>) = loops_of d s"
  "loops_of d (s\<lparr>goroutines := gs\<rparr>) = filter (\<lambda>g. fst g = d) gs"
  "loops_of d (snd (file_Write e fo p s)) = loops_of d s"
  "loops_of d (snd (Write e d' ord p s)) = loops_of d s"
  by (simp_all add: loops_of_def)

lemma filter_remove_nth_le:
  "length (filter P (take i xs @ drop (Suc i) xs)) \<le> length (filter P xs)"
proof (cases "i < length xs")
  case True
  then have "xs = take i xs @ xs ! i # drop (Suc i) xs"
    by (simp add: id_take_nth_drop)
  then have "filter P xs = filter P (take i xs) @ filter P (xs ! i # drop (Suc i) xs)"
    by (metis filter_append)
  then show ?thesis by simp
next
  case False
  then show ?thesis by simp
qed

lemma addWriter_cases:
  obtains (fired) m where "once (fw d s)" "writers (fw d s) = Some m"
      "addWriter d std k w pr s = (ReturnNil, fw_update d (\<lambda>f. f\<lparr>writers := Some (m(k \<mapsto> w))\<rparr>) s)"
  | (nil_map) "once (fw d s)" "writers (fw d s) = None"
      "addWriter d std k w pr s = (Panic ''assignment to entry in nil map'', s)"
  | (first_ok) n where "\<not> once (fw d s)" "pr = Inr n"
      "addWriter d std k w pr s =
           (ReturnNil,
            (fw_update d (\<lambda>f. \<lparr>out = Some std, writers = Some [k \<mapsto> w], once = True\<rparr>) s)
              \<lparr>goroutines := goroutines s @ [(d, PipeRead n)],
               os_Stdout := PipeWrite n,
               events := events s @ [PipeCall d (Inr n), GoCopy d (PipeRead n), SetStdout d (PipeWrite n)]\<rparr>)"
  | (first_fail) err where "\<not> once (fw d s)" "pr = Inl err"
      "addWriter d std k w pr s =
           (ReturnErr (''Can't redirect output: '' @ err),
            (fw_update d (\<lambda>f. \<lparr>out = Some std, writers = Some Map.empty, once = True\<rparr>) s)
              \<lparr>events := events s @ [PipeCall d (Inl err)]\<rparr>)"
proof (cases "once (fw d s)")
  case True
  show ?thesis
  proof (cases "writers (fw d s)")
    case None
    then have "addWriter d std k w pr s = (Panic ''assignment to entry in nil map'', s)"
      using True by (simp add: addWriter_def once_Do_def)
    then show ?thesis using True None nil_map by blast
  next
    case (Some m)
    then show ?thesis using True addWriter_fired fired by blast
  qed
next
  case False
  show ?thesis
  proof (cases pr)
    case (Inl err)
    then show ?thesis using False addWriter_first_fail first_fail by blast
  next
    case (Inr n)
    then show ?thesis using False addWriter_first_ok first_ok by blast
  qed
qed

lemma addWriter_once_mono:
  "once (fw d s) \<Longrightarrow> once (fw d (snd (addWriter d' std k w pr s)))"
  by (cases rule: addWriter_cases [where d = d' and s = s and std = std and k = k and w = w and pr = pr]; cases "d = d'"; simp)

lemma addWriter_other:
  assumes "d \<noteq> d'"
  shows "fw d (snd (addWriter d' std k w pr s)) = fw d s
       \<and> pipe_calls d (events (snd (addWriter d' std k w pr s))) = pipe_calls d (events s)
       \<and> loops_started d (events (snd (addWriter d' std k w pr s))) = loops_started d (events s)
       \<and> swaps d (events (snd (addWriter d' std k w pr s))) = swaps d (events s)
       \<and> loops_of d (snd (addWriter d' std k w pr s)) = loops_of d s"
proof (cases rule: addWriter_cases [where d = d' and s = s and std = std and k = k and w = w and pr = pr])
  case (fired m)
  then show ?thesis using assms by simp
next
  case nil_map
  then show ?thesis by simp
next
  case (first_ok n)
  then show ?thesis using assms by (simp add: proj_append loops_of_def)
next
  case (first_fail err)
  then show ?thesis using assms by (simp add: proj_append)
qed

lemma addWriter_broadcasts [simp]:
  "broadcasts d (events (snd (addWriter d' std k w pr s))) = broadcasts d (events s)"
proof (cases rule: addWriter_cases [where d = d' and s = s and std = std and k = k and w = w and pr = pr])
  case (fired m)
  then show ?thesis by simp
next
  case nil_map
  then show ?thesis by simp
next
  case (first_ok n)
  then show ?thesis by (simp add: proj_append)
next
  case (first_fail err)
  then show ?thesis by (simp add: proj_append)
qed

lemma addWriter_gate_inv_same:
  assumes "gate_inv d s"
  shows "gate_inv d (snd (addWriter d std k w pr s))"
proof (cases rule: addWriter_cases [where d = d and s = s and std = std and k = k and w = w and pr = pr])
  case (fired m)
  then show ?thesis using assms by (simp add: gate_inv_def)
next
  case nil_map
  then show ?thesis using assms by simp
next
  case (first_ok n)
  then show ?thesis using assms by (simp add: gate_inv_def proj_append loops_of_def)
next
  case (first_fail err)
  then show ?thesis using assms by (simp add: gate_inv_def proj_append)
qed

lemma addWriter_gate_inv:
  assumes "gate_inv d s"
  shows "gate_inv d (snd (addWriter d' std k w pr s))"
proof (cases "d = d'")
  case True
  then show ?thesis using assms addWriter_gate_inv_same by simp
next
  case False
  then show ?thesis using assms by (simp add: gate_inv_def addWriter_other)
qed

lemma delete_writer_simps [simp]:
  "once (delete_writer k f) = once f"
  "out (delete_writer k f) = out f"
  "(writers (delete_writer k f) = None) = (writers f = None)"
  "delete_writer k zero_forwarder = zero_forwarder"
  by (simp_all add: delete_writer_def zero_forwarder_def split: option.splits)

lemma RemoveWriter_gate_inv:
  assumes "gate_inv d s"
  shows "gate_inv d (RemoveWriter d' k s)"
proof (cases "d = d'")
  case True
  then show ?thesis using assms
    by (cases "once (fw d s)") (simp_all add: gate_inv_def RemoveWriter_eq)
next
  case False
  then show ?thesis using assms by (simp add: gate_inv_def RemoveWriter_eq)
qed

lemma file_Write_gate_inv:
  "gate_inv d s \<Longrightarrow> gate_inv d (snd (file_Write e fo p s))"
  by (simp add: gate_inv_def)

lemma copy_step_cases:
  obtains (idle) "copy_step e i k ord s = s"
  | (forwarded) dest n where
      "i < length (goroutines s)" "goroutines s ! i = (dest, PipeRead n)"
      "copy_step e i k ord s =
         snd (Write e dest ord (take k (pipebuf s n))
                (s\<lparr>pipebuf := (pipebuf s)(n := drop k (pipebuf s n))\<rparr>))"
  | (short) dest n s2 msg where
      "i < length (goroutines s)" "goroutines s ! i = (dest, PipeRead n)"
      "s2 = snd (Write e dest ord (take k (pipebuf s n))
                (s\<lparr>pipebuf := (pipebuf s)(n := drop k (pipebuf s n))\<rparr>))"
      "copy_step e i k ord s =
         s2\<lparr>goroutines := take i (goroutines s2) @ drop (Suc i) (goroutines s2),
            events := events s2 @ [Warning msg]\<rparr>"
proof (cases "i < length (goroutines s)")
  case False
  then have "copy_step e i k ord s = s" by (simp add: copy_step_def)
  then show ?thesis using idle by blast
next
  case True
  obtain dest r where g: "goroutines s ! i = (dest, r)" by (cases "goroutines s ! i")
  show ?thesis
  proof (cases r)
    case (PipeRead n)
    let ?chunk = "take k (pipebuf s n)"
    let ?s1 = "s\<lparr>pipebuf := (pipebuf s)(n := drop k (pipebuf s n))\<rparr>"
    show ?thesis
    proof (cases "?chunk = []")
      case True
      then have "copy_step e i k ord s = s"
        using \<open>i < length (goroutines s)\<close> g PipeRead by (simp add: copy_step_def)
      then show ?thesis using idle by blast
    next
      case False
      show ?thesis
      proof (cases "fst (fst (Write e dest ord ?chunk ?s1)) = length ?chunk")
        case True
        have "copy_step e i k ord s = snd (Write e dest ord ?chunk ?s1)"
          using \<open>i < length (goroutines s)\<close> g PipeRead False True
          by (simp add: copy_step_def Let_def case_prod_beta)
        then show ?thesis
          using forwarded \<open>i < length (goroutines s)\<close> g PipeRead by blast
      next
        case ne: False
        have "copy_step e i k ord s =
            (snd (Write e dest ord ?chunk ?s1))
              \<lparr>goroutines := take i (goroutines (snd (Write e dest ord ?chunk ?s1)))
                   @ drop (Suc i) (goroutines (snd (Write e dest ord ?chunk ?s1))),
               events := events (snd (Write e dest ord ?chunk ?s1))
                   @ [Warning (''Forwarding some messages failed: '' @
                        copy_error (fst (fst (Write e dest ord ?chunk ?s1))) (length ?chunk))]\<rparr>"
          using \<open>i < length (goroutines s)\<close> g PipeRead False ne
          by (simp add: copy_step_def Let_def case_prod_beta)
        then show ?thesis
          using short \<open>i < length (goroutines s)\<close> g PipeRead by blast
      qed
    qed
  next
    case (Stream x)
    then have "copy_step e i k ord s = s"
      using True g by (simp add: copy_step_def)
    then show ?thesis using idle by blast
  next
    case (PipeWrite x)
    then have "copy_step e i k ord s = s"
      using True g by (simp add: copy_step_def)
    then show ?thesis using idle by blast
  qed
qed

lemma copy_step_fw [simp]: "fw d (copy_step e i k ord s) = fw d s"
  by (cases rule: copy_step_cases [where e = e and i = i and k = k and ord = ord and s = s]) simp_all

lemma copy_step_counts [simp]:
  "pipe_calls d (events (copy_step e i k ord s)) = pipe_calls d (events s)
   \<and> loops_started d (events (copy_step e i k ord s)) = loops_started d (events s)
   \<and> swaps d (events (copy_step e i k ord s)) = swaps d (events s)"
  by (cases rule: copy_step_cases [where e = e and i = i and k = k and ord = ord and s = s])
     (simp_all add: proj_append)

lemma copy_step_loops:
  "length (loops_of d (copy_step e i k ord s)) \<le> length (loops_of d s)"
proof (cases rule: copy_step_cases [where e = e and i = i and k = k and ord = ord and s = s])
  case idle
  then show ?thesis by simp
next
  case (forwarded dest n)
  then show ?thesis by simp
next
  case (short dest n s2 msg)
  have "goroutines s2 = goroutines s" using short(3) by simp
  then show ?thesis
    using short(4) filter_remove_nth_le [of "\<lambda>g. fst g = d" i "goroutines s"]
    by (simp add: loops_of_def)
qed

lemma no_loop_dest:
  assumes "loops_of d s = []" and "i < length (goroutines s)" and "goroutines s ! i = (dest, r)"
  shows "dest \<noteq> d"
proof
  assume "dest = d"
  then have "(d, r) \<in> set (goroutines s)"
    using assms(2,3) by (metis nth_mem)
  then have "(d, r) \<in> set (loops_of d s)" by (simp add: loops_of_def)
  then show False using assms(1) by simp
qed

lemma copy_step_broadcasts:
  assumes "loops_of d s = []"
  shows "broadcasts d (events (copy_step e i k ord s)) = broadcasts d (events s)"
proof (cases rule: copy_step_cases [where e = e and i = i and k = k and ord = ord and s = s])
  case idle
  then show ?thesis by simp
next
  case (forwarded dest n)
  then have "d \<noteq> dest" using no_loop_dest [OF assms] by blast
  then show ?thesis using forwarded(3) by (simp add: Write_broadcasts_other)
next
  case (short dest n s2 msg)
  then have "d \<noteq> dest" using no_loop_dest [OF assms] by blast
  then show ?thesis using short(3,4) by (simp add: Write_broadcasts_other proj_append)
qed

lemma copy_step_gate_inv:
  assumes "gate_inv d s"
  shows "gate_inv d (copy_step e i k ord s)"
proof -
  have l: "length (loops_of d (copy_step e i k ord s)) \<le> loops_started d (events s)"
    using copy_step_loops [of d e i k ord s] assms by (simp add: gate_inv_def)
  show ?thesis
  proof (cases "once (fw d s)")
    case True
    then show ?thesis using assms l by (simp add: gate_inv_def)
  next
    case False
    then have "length (loops_of d s) \<le> 0" using assms by (auto simp: gate_inv_def)
    then have "loops_of d s = []" by simp
    then have "broadcasts d (events (copy_step e i k ord s)) = broadcasts d (events s)"
      by (rule copy_step_broadcasts)
    then show ?thesis using False assms l by (simp add: gate_inv_def)
  qed
qed

lemma step_gate_inv: "gate_inv d s \<Longrightarrow> gate_inv d (step e a s)"
proof (cases a)
  case (CallAddStdoutWriter k w pr)
  then show "gate_inv d s \<Longrightarrow> ?thesis"
    by (simp add: AddStdoutWriter_def addWriter_gate_inv)
next
  case (CallAddStderrWriter k w pr)
  then show "gate_inv d s \<Longrightarrow> ?thesis"
    by (simp add: AddStderrWriter_def addWriter_gate_inv)
next
  case (CallRemoveStdoutWriter k)
  then show "gate_inv d s \<Longrightarrow> ?thesis"
    using RemoveWriter_gate_inv [of d s StdoutForwarder k] by simp
next
  case (CallRemoveStderrWriter k)
  then show "gate_inv d s \<Longrightarrow> ?thesis"
    using RemoveWriter_gate_inv [of d s StderrForwarder k] by simp
next
  case (WriteStdout p)
  then show "gate_inv d s \<Longrightarrow> ?thesis" by (simp add: file_Write_gate_inv)
next
  case (WriteStderr p)
  then show "gate_inv d s \<Longrightarrow> ?thesis" by (simp add: file_Write_gate_inv)
next
  case (WriteFile h p)
  then show "gate_inv d s \<Longrightarrow> ?thesis" by (simp add: file_Write_gate_inv)
next
  case (CopyStep i k ord)
  then show "gate_inv d s \<Longrightarrow> ?thesis" by (simp add: copy_step_gate_inv)
qed

lemma run_gate_inv: "gate_inv d s \<Longrightarrow> gate_inv d (run e as s)"
  by (induction as arbitrary: s) (simp_all add: step_gate_inv)

lemma init_gate_inv: "gate_inv d init_world"
  by (cases d) (simp_all add: gate_inv_def init_world_def loops_of_def zero_forwarder_def)

lemma reachable_gate_inv: "gate_inv d (run e as init_world)"
  by (simp add: run_gate_inv init_gate_inv)

lemma step_once_mono: "once (fw d s) \<Longrightarrow> once (fw d (step e a s))"
  by (cases a)
     (simp_all add: AddStdoutWriter_def AddStderrWriter_def addWriter_once_mono
        RemoveStdoutWriter_def RemoveStderrWriter_def, (cases d; simp)+)

lemma run_once_mono: "once (fw d s) \<Longrightarrow> once (fw d (run e as s))"
  by (induction as arbitrary: s) (simp_all add: step_once_mono)

lemma addWriter_sets_once: "once (fw d (snd (addWriter d std k w pr s)))"
  by (cases rule: addWriter_cases [where d = d and s = s and std = std and k = k and w = w and pr = pr])
     simp_all

lemma AddWriter_eq:
  "AddWriter d k w pr s =
     addWriter d (case d of StdoutForwarder \<Rightarrow> os_Stdout s | StderrForwarder \<Rightarrow> os_Stderr s) k w pr s"
  by (cases d) (simp_all add: AddStdoutWriter_def AddStderrWriter_def)

lemma quiet_addWriter:
  assumes "quiet d s"
  shows "quiet d (snd (addWriter d' std k w pr s))"
proof (cases "d = d'")
  case True
  obtain m where "once (fw d s)" "writers (fw d s) = Some m"
    using assms by (auto simp: quiet_def)
  then have "addWriter d std k w pr s =
      (ReturnNil, fw_update d (\<lambda>f. f\<lparr>writers := Some (m(k \<mapsto> w))\<rparr>) s)"
    by (rule addWriter_fired)
  then show ?thesis using True assms by (simp add: quiet_def)
next
  case False
  then show ?thesis using assms by (simp add: quiet_def addWriter_other)
qed

lemma quiet_RemoveWriter: "quiet d s \<Longrightarrow> quiet d (RemoveWriter d' k s)"
  by (cases "d = d'") (simp_all add: quiet_def RemoveWriter_eq)

lemma quiet_file_Write: "quiet d s \<Longrightarrow> quiet d (snd (file_Write e fo p s))"
  by (simp add: quiet_def)

lemma quiet_copy_step:
  assumes "quiet d s"
  shows "quiet d (copy_step e i k ord s)"
proof -
  have n: "loops_of d s = []" using assms by (simp add: quiet_def)
  have "length (loops_of d (copy_step e i k ord s)) \<le> 0"
    using copy_step_loops [of d e i k ord s] n by simp
  then have "loops_of d (copy_step e i k ord s) = []" by simp
  then show ?thesis
    using assms copy_step_broadcasts [OF n] by (simp add: quiet_def)
qed

lemma step_quiet: "quiet d s \<Longrightarrow> quiet d (step e a s)"
proof (cases a)
  case (CallAddStdoutWriter k w pr)
  then show "quiet d s \<Longrightarrow> ?thesis" by (simp add: AddStdoutWriter_def quiet_addWriter)
next
  case (CallAddStderrWriter k w pr)
  then show "quiet d s \<Longrightarrow> ?thesis" by (simp add: AddStderrWriter_def quiet_addWriter)
next
  case (CallRemoveStdoutWriter k)
  then show "quiet d s \<Longrightarrow> ?thesis"
    using quiet_RemoveWriter [of d s StdoutForwarder k] by simp
next
  case (CallRemoveStderrWriter k)
  then show "quiet d s \<Longrightarrow> ?thesis"
    using quiet_RemoveWriter [of d s StderrForwarder k] by simp
next
  case (WriteStdout p)
  then show "quiet d s \<Longrightarrow> ?thesis" by (simp add: quiet_file_Write)
next
  case (WriteStderr p)
  then show "quiet d s \<Longrightarrow> ?thesis" by (simp add: quiet_file_Write)
next
  case (WriteFile h p)
  then show "quiet d s \<Longrightarrow> ?thesis" by (simp add: quiet_file_Write)
next
  case (CopyStep i k ord)
  then show "quiet d s \<Longrightarrow> ?thesis" by (simp add: quiet_copy_step)
qed

lemma run_quiet: "quiet d s \<Longrightarrow> quiet d (run e as s)"
  by (induction as arbitrary: s) (simp_all add: step_quiet)

lemma addWriter_counts_fired:
  assumes "once (fw d s)"
  shows "pipe_calls d (events (snd (addWriter d' std k w pr s))) = pipe_calls d (events s)
       \<and> loops_started d (events (snd (addWriter d' std k w pr s))) = loops_started d (events s)
       \<and> swaps d (events (snd (addWriter d' std k w pr s))) = swaps d (events s)"
proof (cases "d = d'")
  case True
  then show ?thesis using assms
    by (cases rule: addWriter_cases [where d = d and s = s and std = std and k = k and w = w and pr = pr])
       simp_all
next
  case False
  then show ?thesis by (simp add: addWriter_other)
qed

lemma step_counts_fired:
  assumes "once (fw d s)"
  shows "pipe_calls d (events (step e a s)) = pipe_calls d (events s)
       \<and> loops_started d (events (step e a s)) = loops_started d (events s)
       \<and> swaps d (events (step e a s)) = swaps d (events s)"
proof (cases a)
  case (CallAddStdoutWriter k w pr)
  then show ?thesis using addWriter_counts_fired [OF assms] by (simp add: AddStdoutWriter_def)
next
  case (CallAddStderrWriter k w pr)
  then show ?thesis using addWriter_counts_fired [OF assms] by (simp add: AddStderrWriter_def)
next
  case (CallRemoveStdoutWriter k)
  then show ?thesis by (simp add: RemoveStdoutWriter_def)
next
  case (CallRemoveStderrWriter k)
  then show ?thesis by (simp add: RemoveStderrWriter_def)
next
  case (WriteStdout p)
  then show ?thesis by simp
next
  case (WriteStderr p)
  then show ?thesis by simp
next
  case (WriteFile h p)
  then show ?thesis by simp
next
  case (CopyStep i k ord)
  then show ?thesis by simp
qed

lemma run_counts_fired:
  "once (fw d s) \<Longrightarrow>
     pipe_calls d (events (run e as s)) = pipe_calls d (events s)
     \<and> loops_started d (events (run e as s)) = loops_started d (events s)
     \<and> swaps d (events (run e as s)) = swaps d (events s)"
proof (induction as arbitrary: s)
  case Nil
  show ?case by simp
next
  case (Cons a as)
  have "once (fw d (step e a s))" using Cons.prems by (rule step_once_mono)
  then show ?case
    using Cons.IH [of "step e a s"] step_counts_fired [OF Cons.prems, of e a] by simp
qed

lemma range_order_count:
  assumes "range_order ord m"
  shows "length (filter (\<lambda>j. m j = Some w) ord) = card {j. m j = Some w}"
proof -
  have "distinct ord" and "set ord = dom m"
    using assms by (simp_all add: range_order_def)
  then have "length (filter (\<lambda>j. m j = Some w) ord) = card ({j. m j = Some w} \<inter> dom m)"
    by (simp add: distinct_length_filter)
  moreover have "{j. m j = Some w} \<inter> dom m = {j. m j = Some w}" by auto
  ultimately show ?thesis by simp
qed

lemma Writes_received:
  assumes "writers (fw d s) = Some m" and "\<forall>op \<in> set ops. range_order (fst op) m"
  shows "received d w (events (Writes e d ops s)) =
           received d w (events s) @
             concat (map (\<lambda>op. replicate (card {j. m j = Some w}) (snd op)) ops)"
  using assms
proof (induction ops arbitrary: s)
  case Nil
  then show ?case by simp
next
  case (Cons op ops)
  have r: "range_order (fst op) m" using Cons.prems(2) by simp
  have "received d w (events (Writes e d ops (snd (Write e d (fst op) (snd op) s)))) =
          received d w (events (snd (Write e d (fst op) (snd op) s))) @
            concat (map (\<lambda>op. replicate (card {j. m j = Some w}) (snd op)) ops)"
    using Cons.prems by (intro Cons.IH) simp_all
  moreover have "received d w (events (snd (Write e d (fst op) (snd op) s))) =
          received d w (events s) @ replicate (card {j. m j = Some w}) (snd op)"
    using Write_received [OF Cons.prems(1), of w e "fst op" "snd op"] range_order_count [OF r, of w]
    by simp
  ultimately show ?case by simp
qed

lemma concat_replicate_one: "concat (map (\<lambda>op. replicate (Suc 0) (f op)) ops) = map f ops"
  by (induction ops) simp_all

lemma concat_replicate_none: "concat (map (\<lambda>op. replicate 0 (f op)) ops) = []"
  by (induction ops) simp_all

lemma addWriter_no_panic: "fst (addWriter d std k w pr (run e as init_world)) \<noteq> Panic msg"
proof (cases rule: addWriter_cases [where d = d and s = "run e as init_world" and std = std and k = k and w = w and pr = pr])
  case (fired m)
  then show ?thesis by simp
next
  case nil_map
  then show ?thesis using reachable_gate_inv [of d e as] by (simp add: gate_inv_def)
next
  case (first_ok n)
  then show ?thesis by simp
next
  case (first_fail err)
  then show ?thesis by simp
qed

section \<open>The claims\<close>

text \<open>
  Claim C1, evaluated at the first call of \<open>AddStderrWriter\<close> in a fresh process with a
  pipe at hand. The call returns nil, captures the stderr handle in \<open>out\<close>, starts the
  copy loop on the read end, and assigns the write end to \<open>os.Stdout\<close>: \<open>os.Stderr\<close>
  is what it was. Bytes then written to stderr reach the terminal and no registered
  writer, the copy loop finding nothing to read; bytes written to stdout come out on
  stderr and at the stderr consumer.
\<close>

theorem AddStderrWriter_swaps_Stdout:
  "fst (AddStderrWriter ''client-1'' 1 (Inr 0) init_world) = ReturnNil
   \<and> out (stderrForwarder stderr_client) = Some (Stream ''stderr'')
   \<and> goroutines stderr_client = [(StderrForwarder, PipeRead 0)]
   \<and> os_Stderr stderr_client = Stream ''stderr''
   \<and> os_Stdout stderr_client = PipeWrite 0
   \<and> broadcasts StderrForwarder
        (events (run ok_env [WriteStderr ''boom'', CopyStep 0 4 [''client-1'']] stderr_client)) = []
   \<and> written (Stream ''stderr'')
        (events (run ok_env [WriteStderr ''boom'', CopyStep 0 4 [''client-1'']] stderr_client)) = [''boom'']
   \<and> broadcasts StderrForwarder
        (events (run ok_env [WriteStdout ''fine'', CopyStep 0 4 [''client-1'']] stderr_client))
        = [(''client-1'', 1, ''fine'')]
   \<and> written (Stream ''stderr'')
        (events (run ok_env [WriteStdout ''fine'', CopyStep 0 4 [''client-1'']] stderr_client)) = [''fine'']"
  by (simp add: stderr_client_eq world_defs ok_env_def file_Write_def copy_step_def Write_def warn_if_def)

text \<open>
  Claim C2. A consumer is an entry of the map. Over a run of calls of \<open>Write\<close>, then
  the removal of \<open>k\<close>, then a second run of calls, the entry under \<open>k\<close> is called
  with the bytes of the first run, once each and in order, and with none of the second
  run; every other entry is called with the bytes of both runs, once each and in order;
  an identifier that is not registered is called with nothing. Seen from the writer: one
  that is registered under \<open>k\<close> and under no other identifier receives the byte slices
  of the first run, in order, and nothing else. Each call ranges over the map the
  forwarder holds at that moment: the first run over the map \<open>m\<close> of the state it
  starts in, the second run over the map \<open>m2\<close> that \<open>RemoveWriter\<close> has left.
\<close>

theorem registered_consumer_gets_every_write:
  assumes "writers (fw d s) = Some m"
    and "\<forall>op \<in> set ops1. range_order (fst op) m"
    and "writers (fw d (RemoveWriter d k (Writes e d ops1 s))) = Some m2"
    and "\<forall>op \<in> set ops2. range_order (fst op) m2"
  shows "(\<forall>w. m k = Some w \<longrightarrow>
            delivered d k (events (Writes e d ops2 (RemoveWriter d k (Writes e d ops1 s)))) =
              delivered d k (events s) @ map (\<lambda>op. (w, snd op)) ops1)
       \<and> (\<forall>j w. j \<noteq> k \<and> m j = Some w \<longrightarrow>
            delivered d j (events (Writes e d ops2 (RemoveWriter d k (Writes e d ops1 s)))) =
              delivered d j (events s) @ map (\<lambda>op. (w, snd op)) (ops1 @ ops2))
       \<and> (\<forall>j. m j = None \<longrightarrow>
            delivered d j (events (Writes e d ops2 (RemoveWriter d k (Writes e d ops1 s)))) =
              delivered d j (events s))
       \<and> (\<forall>w. m k = Some w \<and> (\<forall>j. m j = Some w \<longrightarrow> j = k) \<longrightarrow>
            received d w (events (Writes e d ops2 (RemoveWriter d k (Writes e d ops1 s)))) =
              received d w (events s) @ map snd ops1)
       \<and> m2 k = None \<and> (\<forall>j. j \<noteq> k \<longrightarrow> m2 j = m j)"
proof -
  let ?s1 = "Writes e d ops1 s"
  let ?s2 = "RemoveWriter d k ?s1"
  have "writers (fw d ?s2) = Some (m(k := None))"
    using assms(1) by (simp add: delete_writer_def)
  then have m2: "m2 = m(k := None)" using assms(3) by simp
  have w2: "writers (fw d ?s2) = Some m2" by (rule assms(3))
  have a: "\<And>j. delivered d j (events ?s1) =
      delivered d j (events s) @ (case m j of None \<Rightarrow> [] | Some w \<Rightarrow> map (\<lambda>op. (w, snd op)) ops1)"
    using Writes_delivered [OF assms(1,2)] by simp
  have b: "\<And>j. delivered d j (events (Writes e d ops2 ?s2)) =
      delivered d j (events ?s1) @
        (case m2 j of None \<Rightarrow> [] | Some w \<Rightarrow> map (\<lambda>op. (w, snd op)) ops2)"
    using Writes_delivered [OF w2 assms(4)] by simp
  have c: "\<forall>w. m k = Some w \<and> (\<forall>j. m j = Some w \<longrightarrow> j = k) \<longrightarrow>
            received d w (events (Writes e d ops2 ?s2)) = received d w (events s) @ map snd ops1"
  proof (intro allI impI)
    fix w assume h: "m k = Some w \<and> (\<forall>j. m j = Some w \<longrightarrow> j = k)"
    then have "{j. m j = Some w} = {k}" by auto
    then have one: "card {j. m j = Some w} = Suc 0" by simp
    have "{j. m2 j = Some w} = {}" using h m2 by auto
    then have none: "card {j. m2 j = Some w} = 0" by simp
    have "received d w (events ?s1) = received d w (events s) @ map snd ops1"
      using Writes_received [OF assms(1,2), of w e] one by (simp add: concat_replicate_one)
    moreover have "received d w (events (Writes e d ops2 ?s2)) = received d w (events ?s1)"
      using Writes_received [OF w2 assms(4), of w e] none by (simp add: concat_replicate_none)
    ultimately show "received d w (events (Writes e d ops2 ?s2)) = received d w (events s) @ map snd ops1"
      by simp
  qed
  show ?thesis
    using c by (simp add: a b m2)
qed

theorem registered_consumer_gets_every_write_witness:
  "writers (fw StdoutForwarder two_clients) = Some [''client-1'' \<mapsto> 1, ''client-2'' \<mapsto> 2]
   \<and> range_order [''client-2'', ''client-1''] [''client-1'' \<mapsto> 1, ''client-2'' \<mapsto> 2]
   \<and> writers (fw StdoutForwarder
        (RemoveWriter StdoutForwarder ''client-1''
          (Writes ok_env StdoutForwarder [([''client-2'', ''client-1''], ''a'')] two_clients)))
        = Some [''client-2'' \<mapsto> 2]
   \<and> range_order [''client-2''] [''client-2'' \<mapsto> 2]
   \<and> delivered StdoutForwarder ''client-1''
        (events (Writes ok_env StdoutForwarder [([''client-2''], ''b'')]
          (RemoveWriter StdoutForwarder ''client-1''
            (Writes ok_env StdoutForwarder [([''client-2'', ''client-1''], ''a'')] two_clients))))
        = [(1, ''a'')]
   \<and> delivered StdoutForwarder ''client-2''
        (events (Writes ok_env StdoutForwarder [([''client-2''], ''b'')]
          (RemoveWriter StdoutForwarder ''client-1''
            (Writes ok_env StdoutForwarder [([''client-2'', ''client-1''], ''a'')] two_clients))))
        = [(2, ''a''), (2, ''b'')]
   \<and> received StdoutForwarder 1
        (events (Writes ok_env StdoutForwarder [([''client-2''], ''b'')]
          (RemoveWriter StdoutForwarder ''client-1''
            (Writes ok_env StdoutForwarder [([''client-2'', ''client-1''], ''a'')] two_clients))))
        = [''a'']"
proof -
  let ?m = "[''client-1'' \<mapsto> 1::nat, ''client-2'' \<mapsto> 2]"
  let ?m2 = "[''client-2'' \<mapsto> 2::nat]"
  have h1: "writers (fw StdoutForwarder two_clients) = Some ?m"
    by (simp add: two_clients_eq)
  have r1: "range_order [''client-2'', ''client-1''] ?m"
    by (auto simp: range_order_def)
  have e: "?m(''client-1'' := None) = ?m2"
    by (rule ext) simp
  have h3: "writers (fw StdoutForwarder
        (RemoveWriter StdoutForwarder ''client-1''
          (Writes ok_env StdoutForwarder [([''client-2'', ''client-1''], ''a'')] two_clients)))
        = Some ?m2"
  proof -
    have a: "fw StdoutForwarder
        (Writes ok_env StdoutForwarder [([''client-2'', ''client-1''], ''a'')] two_clients)
        = fw StdoutForwarder two_clients"
      by (rule Writes_fw)
    have b: "fw StdoutForwarder
        (RemoveWriter StdoutForwarder ''client-1''
          (Writes ok_env StdoutForwarder [([''client-2'', ''client-1''], ''a'')] two_clients))
        = delete_writer ''client-1'' (fw StdoutForwarder
            (Writes ok_env StdoutForwarder [([''client-2'', ''client-1''], ''a'')] two_clients))"
      by (rule RemoveWriter_fw(1))
    have c: "writers (delete_writer ''client-1'' (fw StdoutForwarder two_clients)) = Some ?m2"
      using h1 e by (simp add: delete_writer_def)
    show ?thesis unfolding b a by (rule c)
  qed
  have r2: "range_order [''client-2''] ?m2"
    by (auto simp: range_order_def)
  have h2: "\<forall>op \<in> set [([''client-2'', ''client-1''], ''a'')]. range_order (fst op) ?m"
    using r1 by simp
  have h4: "\<forall>op \<in> set [([''client-2''], ''b'')]. range_order (fst op) ?m2"
    using r2 by simp
  note T = registered_consumer_gets_every_write [OF h1 h2 h3 h4]
  have d0: "\<And>k. delivered StdoutForwarder k (events two_clients) = []"
    "\<And>w. received StdoutForwarder w (events two_clients) = []"
    by (simp_all add: two_clients_eq)
  have only: "?m ''client-1'' = Some 1 \<and> (\<forall>j. ?m j = Some 1 \<longrightarrow> j = ''client-1'')"
    by simp
  have rc: "received StdoutForwarder 1
        (events (Writes ok_env StdoutForwarder [([''client-2''], ''b'')]
          (RemoveWriter StdoutForwarder ''client-1''
            (Writes ok_env StdoutForwarder [([''client-2'', ''client-1''], ''a'')] two_clients))))
        = [''a'']"
    using T [THEN conjunct2, THEN conjunct2, THEN conjunct2, THEN conjunct1, rule_format, OF only] d0
    by simp
  have dl: "delivered StdoutForwarder ''client-1''
        (events (Writes ok_env StdoutForwarder [([''client-2''], ''b'')]
          (RemoveWriter StdoutForwarder ''client-1''
            (Writes ok_env StdoutForwarder [([''client-2'', ''client-1''], ''a'')] two_clients))))
        = [(1, ''a'')]
   \<and> delivered StdoutForwarder ''client-2''
        (events (Writes ok_env StdoutForwarder [([''client-2''], ''b'')]
          (RemoveWriter StdoutForwarder ''client-1''
            (Writes ok_env StdoutForwarder [([''client-2'', ''client-1''], ''a'')] two_clients))))
        = [(2, ''a''), (2, ''b'')]"
    using T d0 by simp
  show ?thesis
    using h1 r1 h3 r2 dl rc by blast
qed

text \<open>
  Claim C3. \<open>Write\<close> writes to the regular output first and, whatever that write
  returns, calls every registered writer with the same bytes. It returns the count the
  regular output reported and a nil error, and what the writers return has no part in it.
  The theorem holds for every environment, so for a regular output that fails as for one
  that succeeds. The first new event is the write to \<open>out\<close>; the calls of the writers
  come after it.
\<close>

theorem Write_regular_output_first:
  "fst (Write e d ord p s) =
           ((case out (fw d s) of None \<Rightarrow> 0 | Some h \<Rightarrow> fst (fileRes e (events s) h p)), None)
       \<and> (\<forall>h. out (fw d s) = Some h \<longrightarrow>
            (\<exists>rest. events (snd (Write e d ord p s)) =
               events s @ [FileWrite h (take (fst (fileRes e (events s) h p)) p)] @ rest))
       \<and> (\<forall>m k w. writers (fw d s) = Some m \<and> range_order ord m \<and> m k = Some w \<longrightarrow>
            delivered d k (events (snd (Write e d ord p s))) = delivered d k (events s) @ [(w, p)])
       \<and> (\<forall>wr. fst (Write (e\<lparr>writerRes := wr\<rparr>) d ord p s) = fst (Write e d ord p s))"
proof -
  have ret: "fst (Write e d ord p s) =
      ((case out (fw d s) of None \<Rightarrow> 0 | Some h \<Rightarrow> fst (fileRes e (events s) h p)), None)"
    using Write_count [of e d ord p s] by (simp add: Write_fst)
  have cons: "\<forall>m k w. writers (fw d s) = Some m \<and> range_order ord m \<and> m k = Some w \<longrightarrow>
      delivered d k (events (snd (Write e d ord p s))) = delivered d k (events s) @ [(w, p)]"
    using Write_delivered [of d s _ ord _ e p] by simp
  show ?thesis
    using ret cons Write_first_event Write_writerRes_irrelevant by blast
qed

theorem Write_regular_output_first_witness:
  "writers (fw StdoutForwarder two_clients) = Some [''client-1'' \<mapsto> 1, ''client-2'' \<mapsto> 2]
   \<and> range_order [''client-2'', ''client-1''] [''client-1'' \<mapsto> 1, ''client-2'' \<mapsto> 2]
   \<and> fst (Write bad_out_env StdoutForwarder [''client-2'', ''client-1''] ''applying GPO 1'' two_clients)
        = (0, None)
   \<and> delivered StdoutForwarder ''client-1''
        (events (snd (Write bad_out_env StdoutForwarder [''client-2'', ''client-1''] ''applying GPO 1'' two_clients)))
        = [(1, ''applying GPO 1'')]
   \<and> delivered StdoutForwarder ''client-2''
        (events (snd (Write bad_out_env StdoutForwarder [''client-2'', ''client-1''] ''applying GPO 1'' two_clients)))
        = [(2, ''applying GPO 1'')]"
proof -
  let ?m = "[''client-1'' \<mapsto> 1::nat, ''client-2'' \<mapsto> 2]"
  have h1: "writers (fw StdoutForwarder two_clients) = Some ?m"
    by (simp add: two_clients_eq)
  have h2: "range_order [''client-2'', ''client-1''] ?m"
    by (auto simp: range_order_def)
  note T = Write_regular_output_first [of bad_out_env StdoutForwarder "[''client-2'', ''client-1'']"
      "''applying GPO 1''" two_clients]
  have ret: "fst (Write bad_out_env StdoutForwarder [''client-2'', ''client-1''] ''applying GPO 1'' two_clients)
        = (0, None)"
    using T by (simp add: two_clients_eq bad_out_env_def)
  have d0: "\<And>k. delivered StdoutForwarder k (events two_clients) = []"
    by (simp add: two_clients_eq)
  have c: "\<And>k w. ?m k = Some w \<Longrightarrow> delivered StdoutForwarder k
        (events (snd (Write bad_out_env StdoutForwarder [''client-2'', ''client-1''] ''applying GPO 1'' two_clients)))
        = [(w, ''applying GPO 1'')]"
    using T h1 h2 d0 by simp
  show ?thesis
    using h1 h2 ret c [of "''client-1''" 1] c [of "''client-2''" 2] by simp
qed

text \<open>
  Claim C4. In one call of \<open>Write\<close>, a registered writer that fails is logged and
  nothing more: every registered writer is called with the bytes, the regular output
  accepts them, and both forwarders, the map of writers among them, are what they were.
\<close>

theorem Write_failing_consumer_isolated:
  assumes "writers (fw d s) = Some m" and "range_order ord m"
    and "m b = Some wb" and "\<forall>es. writerRes e es wb p = Some x"
  shows "(\<forall>k w. m k = Some w \<longrightarrow>
            delivered d k (events (snd (Write e d ord p s))) = delivered d k (events s) @ [(w, p)])
       \<and> (\<forall>h. out (fw d s) = Some h \<longrightarrow>
            written h (events (snd (Write e d ord p s))) =
              written h (events s) @ [take (fst (fileRes e (events s) h p)) p])
       \<and> stdoutForwarder (snd (Write e d ord p s)) = stdoutForwarder s
       \<and> stderrForwarder (snd (Write e d ord p s)) = stderrForwarder s
       \<and> writers (fw d (snd (Write e d ord p s))) = Some m
       \<and> Warning (''Failed to forward logs: '' @ x) \<in> set (events (snd (Write e d ord p s)))"
proof -
  have cons: "\<forall>k w. m k = Some w \<longrightarrow>
      delivered d k (events (snd (Write e d ord p s))) = delivered d k (events s) @ [(w, p)]"
    using Write_delivered [OF assms(1,2)] by simp
  have real: "\<forall>h. out (fw d s) = Some h \<longrightarrow>
      written h (events (snd (Write e d ord p s))) =
        written h (events s) @ [take (fst (fileRes e (events s) h p)) p]"
    by (simp add: Write_written Write_count)
  have mem: "b \<in> set ord" using assms(2,3) by (auto simp: range_order_def)
  have warn: "Warning (''Failed to forward logs: '' @ x) \<in> set (events (snd (Write e d ord p s)))"
    using forward_warns [of b ord m wb e p x d] mem assms(1,3,4) by (simp add: Write_events)
  show ?thesis
    using cons real warn assms(1) by simp
qed

theorem Write_failing_consumer_isolated_witness:
  "writers (fw StdoutForwarder two_clients) = Some [''client-1'' \<mapsto> 1, ''client-2'' \<mapsto> 2]
   \<and> range_order [''client-1'', ''client-2''] [''client-1'' \<mapsto> 1, ''client-2'' \<mapsto> 2]
   \<and> writerRes (bad_writer_env 1) [] 1 ''applying GPO 1'' = Some ''closed''
   \<and> delivered StdoutForwarder ''client-2''
        (events (snd (Write (bad_writer_env 1) StdoutForwarder [''client-1'', ''client-2''] ''applying GPO 1'' two_clients)))
        = [(2, ''applying GPO 1'')]
   \<and> written (Stream ''stdout'')
        (events (snd (Write (bad_writer_env 1) StdoutForwarder [''client-1'', ''client-2''] ''applying GPO 1'' two_clients)))
        = [''applying GPO 1'']
   \<and> writers (fw StdoutForwarder
        (snd (Write (bad_writer_env 1) StdoutForwarder [''client-1'', ''client-2''] ''applying GPO 1'' two_clients)))
        = Some [''client-1'' \<mapsto> 1, ''client-2'' \<mapsto> 2]
   \<and> Warning ''Failed to forward logs: closed''
        \<in> set (events (snd (Write (bad_writer_env 1) StdoutForwarder [''client-1'', ''client-2''] ''applying GPO 1'' two_clients)))"
proof -
  let ?m = "[''client-1'' \<mapsto> 1::nat, ''client-2'' \<mapsto> 2]"
  let ?p = "''applying GPO 1''"
  have h1: "writers (fw StdoutForwarder two_clients) = Some ?m"
    by (simp add: two_clients_eq)
  have h2: "range_order [''client-1'', ''client-2''] ?m"
    by (auto simp: range_order_def)
  have h3: "?m ''client-1'' = Some 1" by simp
  have h4: "\<forall>es. writerRes (bad_writer_env 1) es 1 ?p = Some ''closed''"
    by (simp add: bad_writer_env_def)
  note T = Write_failing_consumer_isolated [OF h1 h2 h3 h4]
  have d0: "delivered StdoutForwarder ''client-2'' (events two_clients) = []"
    "written (Stream ''stdout'') (events two_clients) = []"
    "out (fw StdoutForwarder two_clients) = Some (Stream ''stdout'')"
    by (simp_all add: two_clients_eq)
  have f: "fileRes (bad_writer_env 1) (events two_clients) (Stream ''stdout'') ?p = (length ?p, None)"
    by (simp add: bad_writer_env_def)
  show ?thesis
    using h1 h2 h4 T d0 f by simp
qed

text \<open>
  Claim C5. In every state the process reaches from its start, by any calls of the four
  functions, writes and turns of copy loops, the gate of each forwarder has called
  \<open>os.Pipe\<close> at most once, has assigned to a global handle at most once (the handle it
  assigns is \<open>os.Stdout\<close> for either forwarder) and has started at most one copy loop.
  A call of \<open>addWriter\<close> leaves the gate fired; a gate that has fired stays fired, and
  a call made then returns nil and changes the map of writers and nothing else.
\<close>

theorem at_most_one_interception:
  "pipe_calls d (events (run e as init_world)) \<le> 1
   \<and> swaps d (events (run e as init_world)) \<le> 1
   \<and> loops_started d (events (run e as init_world)) \<le> 1
   \<and> length (loops_of d (run e as init_world)) \<le> 1
   \<and> once (fw d (snd (addWriter d std k w pr (run e as init_world))))
   \<and> (once (fw d (run e as init_world)) \<longrightarrow>
        once (fw d (run e (as @ bs) init_world))
        \<and> (\<exists>m. writers (fw d (run e as init_world)) = Some m
              \<and> addWriter d std k w pr (run e as init_world) =
                  (ReturnNil,
                   fw_update d (\<lambda>f. f\<lparr>writers := Some (m(k \<mapsto> w))\<rparr>) (run e as init_world))))"
proof -
  let ?s = "run e as init_world"
  have inv: "gate_inv d ?s" by (rule reachable_gate_inv)
  have p: "pipe_calls d (events ?s) \<le> 1"
    using inv by (cases "once (fw d ?s)") (simp_all add: gate_inv_def)
  have l: "loops_started d (events ?s) \<le> 1"
    using inv p by (simp add: gate_inv_def)
  have sw: "swaps d (events ?s) \<le> 1"
    using inv l by (simp add: gate_inv_def)
  have g: "length (loops_of d ?s) \<le> 1"
    using inv l by (simp add: gate_inv_def)
  have later: "once (fw d ?s) \<longrightarrow>
        once (fw d (run e (as @ bs) init_world))
        \<and> (\<exists>m. writers (fw d ?s) = Some m
              \<and> addWriter d std k w pr ?s =
                  (ReturnNil, fw_update d (\<lambda>f. f\<lparr>writers := Some (m(k \<mapsto> w))\<rparr>) ?s))"
  proof
    assume o: "once (fw d ?s)"
    then obtain m where m: "writers (fw d ?s) = Some m"
      using inv by (auto simp: gate_inv_def)
    have "once (fw d (run e (as @ bs) init_world))"
      using o by (simp add: run_append run_once_mono)
    then show "once (fw d (run e (as @ bs) init_world))
        \<and> (\<exists>m. writers (fw d ?s) = Some m
              \<and> addWriter d std k w pr ?s =
                  (ReturnNil, fw_update d (\<lambda>f. f\<lparr>writers := Some (m(k \<mapsto> w))\<rparr>) ?s))"
      using m addWriter_fired [OF o m] by simp
  qed
  show ?thesis
    using p sw l g later addWriter_sets_once by blast
qed

theorem at_most_one_interception_witness:
  "once (fw StderrForwarder
     (run ok_env [CallAddStderrWriter ''client-1'' 1 (Inr 0), CallAddStderrWriter ''client-2'' 2 (Inr 1)]
        init_world))
   \<and> pipe_calls StderrForwarder (events
        (run ok_env [CallAddStderrWriter ''client-1'' 1 (Inr 0), CallAddStderrWriter ''client-2'' 2 (Inr 1)]
           init_world)) = 1
   \<and> loops_started StderrForwarder (events
        (run ok_env [CallAddStderrWriter ''client-1'' 1 (Inr 0), CallAddStderrWriter ''client-2'' 2 (Inr 1)]
           init_world)) \<le> 1
   \<and> once (fw StderrForwarder
        (run ok_env ([CallAddStderrWriter ''client-1'' 1 (Inr 0), CallAddStderrWriter ''client-2'' 2 (Inr 1)]
           @ [CallRemoveStderrWriter ''client-1'', WriteStdout ''x'', CopyStep 0 1 [''client-2'']])
           init_world))
   \<and> fst (addWriter StderrForwarder (Stream ''stderr'') ''client-3'' 3 (Inr 2)
        (run ok_env [CallAddStderrWriter ''client-1'' 1 (Inr 0), CallAddStderrWriter ''client-2'' 2 (Inr 1)]
           init_world)) = ReturnNil"
proof -
  let ?as = "[CallAddStderrWriter ''client-1'' 1 (Inr 0), CallAddStderrWriter ''client-2'' 2 (Inr 1)]"
  let ?bs = "[CallRemoveStderrWriter ''client-1'', WriteStdout ''x'', CopyStep 0 1 [''client-2'']]"
  have h: "once (fw StderrForwarder (run ok_env ?as init_world))"
    by (simp add: world_defs)
  have c: "pipe_calls StderrForwarder (events (run ok_env ?as init_world)) = 1"
    by (simp add: world_defs)
  note T = at_most_one_interception [of StderrForwarder ok_env ?as "Stream ''stderr''"
      "''client-3''" 3 "Inr 2" ?bs]
  have a: "loops_started StderrForwarder (events (run ok_env ?as init_world)) \<le> 1"
    using T by blast
  have b: "once (fw StderrForwarder (run ok_env (?as @ ?bs) init_world))"
    using T h by blast
  have "\<exists>m. addWriter StderrForwarder (Stream ''stderr'') ''client-3'' 3 (Inr 2) (run ok_env ?as init_world) =
      (ReturnNil, fw_update StderrForwarder (\<lambda>f. f\<lparr>writers := Some (m(''client-3'' \<mapsto> 3))\<rparr>)
         (run ok_env ?as init_world))"
    using T h by blast
  then have r: "fst (addWriter StderrForwarder (Stream ''stderr'') ''client-3'' 3 (Inr 2)
        (run ok_env ?as init_world)) = ReturnNil"
    by auto
  show ?thesis using h c a b r by blast
qed

text \<open>
  Claim C6, amended. When \<open>os.Pipe\<close> fails in the first registration on a forwarder,
  the call returns a non-nil error and the writer is not inserted; no handle is replaced,
  no copy loop is started and the other forwarder is untouched. The forwarder itself
  keeps what the gate did before the failure: the gate has fired, \<open>out\<close> holds the
  captured handle and the map is initialised and empty.
\<close>

theorem addWriter_pipe_failure:
  assumes "\<not> once (fw d s)"
  shows "fst (addWriter d std k w (Inl err) s) = ReturnErr (''Can't redirect output: '' @ err)
       \<and> fw d (snd (addWriter d std k w (Inl err) s))
            = \<lparr>out = Some std, writers = Some Map.empty, once = True\<rparr>
       \<and> fw (other d) (snd (addWriter d std k w (Inl err) s)) = fw (other d) s
       \<and> os_Stdout (snd (addWriter d std k w (Inl err) s)) = os_Stdout s
       \<and> os_Stderr (snd (addWriter d std k w (Inl err) s)) = os_Stderr s
       \<and> goroutines (snd (addWriter d std k w (Inl err) s)) = goroutines s
       \<and> pipebuf (snd (addWriter d std k w (Inl err) s)) = pipebuf s
       \<and> events (snd (addWriter d std k w (Inl err) s)) = events s @ [PipeCall d (Inl err)]"
  by (simp add: addWriter_first_fail [OF assms])

theorem addWriter_pipe_failure_witness:
  "\<not> once (fw StderrForwarder init_world)
   \<and> fst (AddStderrWriter ''client-1'' 1 (Inl ''too many open files'') init_world)
       = ReturnErr ''Can't redirect output: too many open files''
   \<and> stderrForwarder (snd (AddStderrWriter ''client-1'' 1 (Inl ''too many open files'') init_world))
       = \<lparr>out = Some (Stream ''stderr''), writers = Some Map.empty, once = True\<rparr>
   \<and> os_Stdout (snd (AddStderrWriter ''client-1'' 1 (Inl ''too many open files'') init_world))
       = Stream ''stdout''
   \<and> goroutines (snd (AddStderrWriter ''client-1'' 1 (Inl ''too many open files'') init_world)) = []"
proof -
  have h: "\<not> once (fw StderrForwarder init_world)"
    by (simp add: init_world_def zero_forwarder_def)
  note T = addWriter_pipe_failure [OF h, of "os_Stderr init_world" "''client-1''" 1 "''too many open files''"]
  have i: "os_Stderr init_world = Stream ''stderr''" "os_Stdout init_world = Stream ''stdout''"
    "goroutines init_world = []"
    by (simp_all add: init_world_def)
  show ?thesis
    using h T i by (simp add: AddStderrWriter_def)
qed

text \<open>
  Claim C6 as first stated has the forwarder fall back to its state before any
  interception, so that no registration reports success while nothing is forwarded.
  That fails: after a first registration on stdout for which \<open>os.Pipe\<close> failed, the
  forwarder is not back at the zero value, since its gate has fired, and the next
  registration returns nil although no copy loop runs and the handle is the old one.
\<close>

theorem pipe_failure_gate_fired_counterexample:
  "fst (AddStdoutWriter ''client-1'' 1 (Inl ''too many open files'') init_world)
     = ReturnErr ''Can't redirect output: too many open files''
   \<and> once (stdoutForwarder failed_first)
   \<and> stdoutForwarder failed_first \<noteq> zero_forwarder
   \<and> fst (AddStdoutWriter ''client-2'' 2 (Inr 0) failed_first) = ReturnNil
   \<and> goroutines (snd (AddStdoutWriter ''client-2'' 2 (Inr 0) failed_first)) = []
   \<and> os_Stdout (snd (AddStdoutWriter ''client-2'' 2 (Inr 0) failed_first)) = Stream ''stdout''"
  by (simp add: failed_first_eq world_defs)

text \<open>
  Claim C7. Take any state the process reaches in which the gate of a forwarder has not
  fired, and let the first registration on it fail at \<open>os.Pipe\<close>. Whatever happens
  next, every later \<open>AddStdoutWriter\<close> or \<open>AddStderrWriter\<close> on this forwarder returns
  nil and inserts its writer; \<open>os.Pipe\<close> is never called again for it, no copy loop is
  started and no handle assigned; and the forwarder never calls a registered writer.
\<close>

theorem failed_interception_never_retried:
  assumes "\<not> once (fw d (run e as init_world))"
  shows "fst (AddWriter d k w (Inl err) (run e as init_world))
           = ReturnErr (''Can't redirect output: '' @ err)
       \<and> (\<exists>m. writers (fw d (run e bs (snd (AddWriter d k w (Inl err) (run e as init_world))))) = Some m
            \<and> AddWriter d k' w' pr (run e bs (snd (AddWriter d k w (Inl err) (run e as init_world))))
                = (ReturnNil,
                   fw_update d (\<lambda>f. f\<lparr>writers := Some (m(k' \<mapsto> w'))\<rparr>)
                     (run e bs (snd (AddWriter d k w (Inl err) (run e as init_world))))))
       \<and> pipe_calls d (events (run e bs (snd (AddWriter d k w (Inl err) (run e as init_world))))) = 1
       \<and> loops_started d (events (run e bs (snd (AddWriter d k w (Inl err) (run e as init_world))))) = 0
       \<and> swaps d (events (run e bs (snd (AddWriter d k w (Inl err) (run e as init_world))))) = 0
       \<and> loops_of d (run e bs (snd (AddWriter d k w (Inl err) (run e as init_world)))) = []
       \<and> broadcasts d (events (run e bs (snd (AddWriter d k w (Inl err) (run e as init_world))))) = []"
proof -
  let ?s0 = "run e as init_world"
  let ?std = "case d of StdoutForwarder \<Rightarrow> os_Stdout ?s0 | StderrForwarder \<Rightarrow> os_Stderr ?s0"
  let ?s1 = "snd (AddWriter d k w (Inl err) ?s0)"
  let ?s2 = "run e bs ?s1"
  have inv: "gate_inv d ?s0" by (rule reachable_gate_inv)
  have z: "pipe_calls d (events ?s0) = 0" "broadcasts d (events ?s0) = []"
    using inv assms by (simp_all add: gate_inv_def)
  have z2: "loops_started d (events ?s0) = 0" "swaps d (events ?s0) = 0"
    "length (loops_of d ?s0) \<le> 0"
    using inv z(1) by (auto simp: gate_inv_def)
  have l0: "loops_of d ?s0 = []" using z2(3) by simp
  have first: "AddWriter d k w (Inl err) ?s0 =
      (ReturnErr (''Can't redirect output: '' @ err),
       (fw_update d (\<lambda>f. \<lparr>out = Some ?std, writers = Some Map.empty, once = True\<rparr>) ?s0)
         \<lparr>events := events ?s0 @ [PipeCall d (Inl err)]\<rparr>)"
    using addWriter_first_fail [OF assms] by (simp add: AddWriter_eq)
  have o1: "once (fw d ?s1)" using first by simp
  have q1: "quiet d ?s1"
    using first z(2) l0 by (simp add: quiet_def proj_append)
  have c1: "pipe_calls d (events ?s1) = 1" "loops_started d (events ?s1) = 0"
    "swaps d (events ?s1) = 0"
    using first z(1) z2(1,2) by (simp_all add: proj_append)
  have q2: "quiet d ?s2" using q1 by (rule run_quiet)
  have c2: "pipe_calls d (events ?s2) = 1" "loops_started d (events ?s2) = 0"
    "swaps d (events ?s2) = 0"
    using run_counts_fired [OF o1, of e bs] c1 by simp_all
  obtain m where m: "once (fw d ?s2)" "writers (fw d ?s2) = Some m"
    using q2 by (auto simp: quiet_def)
  have later: "AddWriter d k' w' pr ?s2 =
      (ReturnNil, fw_update d (\<lambda>f. f\<lparr>writers := Some (m(k' \<mapsto> w'))\<rparr>) ?s2)"
    using addWriter_fired [OF m] by (simp add: AddWriter_eq)
  have ex: "\<exists>m. writers (fw d ?s2) = Some m
      \<and> AddWriter d k' w' pr ?s2 =
          (ReturnNil, fw_update d (\<lambda>f. f\<lparr>writers := Some (m(k' \<mapsto> w'))\<rparr>) ?s2)"
    using m(2) later by blast
  have r: "fst (AddWriter d k w (Inl err) ?s0) = ReturnErr (''Can't redirect output: '' @ err)"
    using first by simp
  have l2: "loops_of d ?s2 = []" "broadcasts d (events ?s2) = []"
    using q2 by (simp_all add: quiet_def)
  show ?thesis
    using r ex c2 l2 by blast
qed

theorem failed_interception_never_retried_witness:
  "\<not> once (fw StderrForwarder (run ok_env [] init_world))
   \<and> fst (AddStderrWriter ''client-2'' 2 (Inr 0)
        (run ok_env [CallAddStderrWriter ''client-3'' 3 (Inr 1), WriteStderr ''boom'', CopyStep 0 4 [''client-3'']]
          (snd (AddStderrWriter ''client-1'' 1 (Inl ''too many open files'') (run ok_env [] init_world)))))
       = ReturnNil
   \<and> pipe_calls StderrForwarder (events
        (run ok_env [CallAddStderrWriter ''client-3'' 3 (Inr 1), WriteStderr ''boom'', CopyStep 0 4 [''client-3'']]
          (snd (AddStderrWriter ''client-1'' 1 (Inl ''too many open files'') (run ok_env [] init_world))))) = 1
   \<and> broadcasts StderrForwarder (events
        (run ok_env [CallAddStderrWriter ''client-3'' 3 (Inr 1), WriteStderr ''boom'', CopyStep 0 4 [''client-3'']]
          (snd (AddStderrWriter ''client-1'' 1 (Inl ''too many open files'') (run ok_env [] init_world))))) = []
   \<and> writers (stderrForwarder
        (run ok_env [CallAddStderrWriter ''client-3'' 3 (Inr 1), WriteStderr ''boom'', CopyStep 0 4 [''client-3'']]
          (snd (AddStderrWriter ''client-1'' 1 (Inl ''too many open files'') (run ok_env [] init_world)))))
       = Some [''client-3'' \<mapsto> 3]"
proof -
  let ?bs = "[CallAddStderrWriter ''client-3'' 3 (Inr 1), WriteStderr ''boom'', CopyStep 0 4 [''client-3'']]"
  have h: "\<not> once (fw StderrForwarder (run ok_env [] init_world))"
    by (simp add: init_world_def zero_forwarder_def)
  note T = failed_interception_never_retried [OF h, of "''client-1''" 1 "''too many open files''"
      ?bs "''client-2''" 2 "Inr 0"]
  have a: "fst (AddStderrWriter ''client-2'' 2 (Inr 0)
        (run ok_env ?bs
          (snd (AddStderrWriter ''client-1'' 1 (Inl ''too many open files'') (run ok_env [] init_world)))))
       = ReturnNil"
    using T by auto
  have b: "pipe_calls StderrForwarder (events
        (run ok_env ?bs
          (snd (AddStderrWriter ''client-1'' 1 (Inl ''too many open files'') (run ok_env [] init_world))))) = 1"
    using T by simp
  have c: "broadcasts StderrForwarder (events
        (run ok_env ?bs
          (snd (AddStderrWriter ''client-1'' 1 (Inl ''too many open files'') (run ok_env [] init_world))))) = []"
    using T by simp
  have w: "writers (stderrForwarder
        (run ok_env ?bs
          (snd (AddStderrWriter ''client-1'' 1 (Inl ''too many open files'') (run ok_env [] init_world)))))
       = Some [''client-3'' \<mapsto> 3]"
    by (simp add: world_defs ok_env_def file_Write_def copy_step_def)
  show ?thesis using h a b c w by blast
qed

text \<open>
  Claim C8. A registration under an identifier that is already registered replaces the
  writer: the call returns nil and the process is the one that registering the second
  writer alone would have produced. From then on \<open>Write\<close> calls the second writer for
  this identifier, and the first writer, unless another identifier still holds it, is
  called no more.
\<close>

theorem addWriter_last_write_wins:
  assumes "addWriter d std k w1 pr s = (ReturnNil, s1)"
    and "addWriter d std' k w2 pr' s1 = (r2, s2)"
  shows "(r2, s2) = addWriter d std k w2 pr s
       \<and> r2 = ReturnNil
       \<and> (\<exists>m. writers (fw d s2) = Some m \<and> m k = Some w2
            \<and> (\<forall>e ord p. range_order ord m \<longrightarrow>
                  delivered d k (events (snd (Write e d ord p s2))) =
                    delivered d k (events s2) @ [(w2, p)]
                \<and> ((\<forall>j. m j \<noteq> Some w1) \<longrightarrow>
                     received d w1 (events (snd (Write e d ord p s2))) = received d w1 (events s2))))"
proof -
  obtain m1 where s1: "once (fw d s1)" "writers (fw d s1) = Some m1" "m1 k = Some w1"
    using assms(1)
    by (cases d; cases pr)
       (auto simp: addWriter_def once_Do_def once_body_def Let_def
             split: if_splits option.splits)
  have second: "(r2, s2) = (ReturnNil, fw_update d (\<lambda>f. f\<lparr>writers := Some (m1(k \<mapsto> w2))\<rparr>) s1)"
    using addWriter_fired [OF s1(1,2)] assms(2) by simp
  have same: "addWriter d std k w2 pr s =
      (ReturnNil, fw_update d (\<lambda>f. f\<lparr>writers := Some (m1(k \<mapsto> w2))\<rparr>) s1)"
    using assms(1) s1(2)
    by (cases d; cases pr)
       (auto simp: addWriter_def once_Do_def once_body_def Let_def
             split: if_splits option.splits)
  let ?m = "m1(k \<mapsto> w2)"
  have w: "writers (fw d s2) = Some ?m" using second by simp
  have deliv: "\<forall>e ord p. range_order ord ?m \<longrightarrow>
      delivered d k (events (snd (Write e d ord p s2))) = delivered d k (events s2) @ [(w2, p)]
      \<and> ((\<forall>j. ?m j \<noteq> Some w1) \<longrightarrow>
           received d w1 (events (snd (Write e d ord p s2))) = received d w1 (events s2))"
  proof (intro allI impI conjI)
    fix e ord p assume r: "range_order ord ?m"
    show "delivered d k (events (snd (Write e d ord p s2))) = delivered d k (events s2) @ [(w2, p)]"
      using Write_delivered [OF w r, of k e p] by simp
    assume "\<forall>j. ?m j \<noteq> Some w1"
    then have "filter (\<lambda>j. ?m j = Some w1) ord = []" by (simp add: filter_empty_conv)
    then show "received d w1 (events (snd (Write e d ord p s2))) = received d w1 (events s2)"
      using Write_received [OF w, of w1 e ord p] by simp
  qed
  have "writers (fw d s2) = Some ?m \<and> ?m k = Some w2 \<and>
      (\<forall>e ord p. range_order ord ?m \<longrightarrow>
      delivered d k (events (snd (Write e d ord p s2))) = delivered d k (events s2) @ [(w2, p)]
      \<and> ((\<forall>j. ?m j \<noteq> Some w1) \<longrightarrow>
           received d w1 (events (snd (Write e d ord p s2))) = received d w1 (events s2)))"
    using w deliv by simp
  then have ex: "\<exists>m. writers (fw d s2) = Some m \<and> m k = Some w2
            \<and> (\<forall>e ord p. range_order ord m \<longrightarrow>
                  delivered d k (events (snd (Write e d ord p s2))) =
                    delivered d k (events s2) @ [(w2, p)]
                \<and> ((\<forall>j. m j \<noteq> Some w1) \<longrightarrow>
                     received d w1 (events (snd (Write e d ord p s2))) = received d w1 (events s2)))"
    by (rule exI [of _ ?m])
  show ?thesis
    using second same ex by simp
qed

theorem addWriter_last_write_wins_witness:
  "addWriter StdoutForwarder (Stream ''stdout'') ''client-1'' 1 (Inr 0) init_world = (ReturnNil, one_client)
   \<and> addWriter StdoutForwarder (PipeWrite 0) ''client-1'' 2 (Inr 1) one_client
       = addWriter StdoutForwarder (Stream ''stdout'') ''client-1'' 2 (Inr 0) init_world
   \<and> fst (addWriter StdoutForwarder (PipeWrite 0) ''client-1'' 2 (Inr 1) one_client) = ReturnNil
   \<and> writers (fw StdoutForwarder (snd (addWriter StdoutForwarder (PipeWrite 0) ''client-1'' 2 (Inr 1) one_client)))
       = Some [''client-1'' \<mapsto> 2]"
proof -
  have h1: "addWriter StdoutForwarder (Stream ''stdout'') ''client-1'' 1 (Inr 0) init_world = (ReturnNil, one_client)"
    by (simp add: one_client_def world_defs)
  have h2: "addWriter StdoutForwarder (PipeWrite 0) ''client-1'' 2 (Inr 1) one_client =
      (fst (addWriter StdoutForwarder (PipeWrite 0) ''client-1'' 2 (Inr 1) one_client),
       snd (addWriter StdoutForwarder (PipeWrite 0) ''client-1'' 2 (Inr 1) one_client))"
    by simp
  note T = addWriter_last_write_wins [OF h1 h2]
  have w: "writers (fw StdoutForwarder (snd (addWriter StdoutForwarder (PipeWrite 0) ''client-1'' 2 (Inr 1) one_client)))
       = Some [''client-1'' \<mapsto> 2]"
    by (simp add: one_client_eq addWriter_def once_Do_def)
  have a: "addWriter StdoutForwarder (PipeWrite 0) ''client-1'' 2 (Inr 1) one_client
       = addWriter StdoutForwarder (Stream ''stdout'') ''client-1'' 2 (Inr 0) init_world"
    using T [THEN conjunct1] by simp
  have b: "fst (addWriter StdoutForwarder (PipeWrite 0) ''client-1'' 2 (Inr 1) one_client) = ReturnNil"
    using T [THEN conjunct2, THEN conjunct1] .
  show ?thesis using h1 a b w by blast
qed

text \<open>
  Claim C9. \<open>RemoveStdoutWriter\<close> and \<open>RemoveStderrWriter\<close> return nothing and have one
  path. On an initialised map they delete the identifier and change nothing else; when the
  identifier is not in the map, or the map is still nil because no registration has run,
  the process is left as it was.
\<close>

theorem RemoveWriter_always_succeeds:
  "(\<forall>m. writers (fw d s) = Some m \<longrightarrow>
       RemoveWriter d k s = fw_update d (\<lambda>f. f\<lparr>writers := Some (m(k := None))\<rparr>) s)
   \<and> (\<forall>m. writers (fw d s) = Some m \<longrightarrow> m k = None \<longrightarrow> RemoveWriter d k s = s)
   \<and> (writers (fw d s) = None \<longrightarrow> RemoveWriter d k s = s)
   \<and> RemoveWriter StdoutForwarder k s = RemoveStdoutWriter k s
   \<and> RemoveWriter StderrForwarder k s = RemoveStderrWriter k s"
proof -
  have a: "\<forall>m. writers (fw d s) = Some m \<longrightarrow>
       RemoveWriter d k s = fw_update d (\<lambda>f. f\<lparr>writers := Some (m(k := None))\<rparr>) s"
    by (auto simp: RemoveWriter_eq delete_writer_def intro!: fw_update_cong)
  have b: "\<forall>m. writers (fw d s) = Some m \<longrightarrow> m k = None \<longrightarrow> RemoveWriter d k s = s"
  proof (intro allI impI)
    fix m assume m: "writers (fw d s) = Some m" "m k = None"
    then have "m(k := None) = m" by (simp add: fun_upd_idem)
    then have "delete_writer k (fw d s) = fw d s"
      using m by (simp add: delete_writer_def)
    then show "RemoveWriter d k s = s"
      by (simp add: RemoveWriter_eq fw_update_id)
  qed
  have c: "writers (fw d s) = None \<longrightarrow> RemoveWriter d k s = s"
    by (simp add: RemoveWriter_eq delete_writer_def fw_update_id)
  show ?thesis using a b c by simp
qed

theorem RemoveWriter_always_succeeds_witness:
  "writers (fw StdoutForwarder two_clients) = Some [''client-1'' \<mapsto> 1, ''client-2'' \<mapsto> 2]
   \<and> writers (fw StdoutForwarder (RemoveStdoutWriter ''client-1'' two_clients)) = Some [''client-2'' \<mapsto> 2]
   \<and> RemoveStdoutWriter ''client-3'' two_clients = two_clients
   \<and> writers (fw StderrForwarder init_world) = None
   \<and> RemoveStderrWriter ''client-1'' init_world = init_world"
proof -
  let ?m = "[''client-1'' \<mapsto> 1::nat, ''client-2'' \<mapsto> 2]"
  have h1: "writers (fw StdoutForwarder two_clients) = Some ?m"
    by (simp add: two_clients_eq)
  have h2: "?m ''client-3'' = None" by simp
  have h3: "writers (fw StderrForwarder init_world) = None"
    by (simp add: init_world_def zero_forwarder_def)
  have e: "?m(''client-1'' := None) = [''client-2'' \<mapsto> 2]"
    by (rule ext) simp
  note T1 = RemoveWriter_always_succeeds [of StdoutForwarder two_clients "''client-1''"]
  note T2 = RemoveWriter_always_succeeds [of StdoutForwarder two_clients "''client-3''"]
  note T3 = RemoveWriter_always_succeeds [of StderrForwarder init_world "''client-1''"]
  have a: "writers (fw StdoutForwarder (RemoveStdoutWriter ''client-1'' two_clients)) = Some [''client-2'' \<mapsto> 2]"
    using T1 h1 e by simp
  have b: "RemoveStdoutWriter ''client-3'' two_clients = two_clients"
    using T2 h1 h2 by simp
  have c: "RemoveStderrWriter ''client-1'' init_world = init_world"
    using T3 h3 by simp
  show ?thesis using h1 h3 a b c by simp
qed

text \<open>
  Claim C10, evaluated at the first call of \<open>AddStderrWriter\<close> in a fresh process with
  a pipe at hand: the call replaces the stdout handle by the write end of its pipe. In
  every state \<open>AddStderrWriter\<close> leaves the stdout forwarder alone, and
  \<open>AddStdoutWriter\<close> touches neither the stderr handle nor the stderr forwarder.
\<close>

theorem AddStderrWriter_modifies_Stdout:
  "os_Stdout init_world = Stream ''stdout''
   \<and> os_Stdout (snd (AddStderrWriter ''client-1'' 1 (Inr 0) init_world)) = PipeWrite 0
   \<and> stdoutForwarder (snd (AddStderrWriter k w pr s)) = stdoutForwarder s
   \<and> os_Stderr (snd (AddStdoutWriter k w pr s)) = os_Stderr s
   \<and> stderrForwarder (snd (AddStdoutWriter k w pr s)) = stderrForwarder s"
  by (simp add: world_defs split: sum.splits option.splits prod.splits)

end
